theory Spec2Isabelle
  imports Complex_Main "HOL-Library.AList" "HOL-Library.Sublist"
begin

section \<open>Platform model: JavaScript values, JSON text\<close>

text \<open>
  The application stores and transmits its data as JSON text
  (\<^verbatim>\<open>JSON.stringify\<close>, \<^verbatim>\<open>JSON.parse\<close>, \<^verbatim>\<open>request.json()\<close>).  A JavaScript value that
  can travel through JSON is a \<open>json\<close>.  An object is its list of properties in insertion
  order.  Numbers are the integers (every number the application itself produces is a
  \<^verbatim>\<open>Date.now()\<close>); fractions, exponents, \<^verbatim>\<open>NaN\<close> and the infinities are outside the model.
  A \<open>char\<close> stands for one UTF-16 code unit below 256; the code units from 256 on, which
  JSON writes and reads unchanged as it does those from 128 to 255, are left out.
\<close>

datatype json =
    JNull
  | JBool bool
  | JNum int
  | JStr string
  | JArr "json list"
  | JObj "(string \<times> json) list"

datatype js_error = QuotaExceededError | SyntaxError | TypeError | APIError | SystemError

abbreviation DQ :: char where "DQ \<equiv> CHR 0x22"
abbreviation BSL :: char where "BSL \<equiv> CHR 0x5C"
abbreviation NL :: char where "NL \<equiv> CHR 0x0A"

subsection \<open>Number to string\<close>

definition digit_char :: "nat \<Rightarrow> char" where
  "digit_char d = ''0123456789'' ! d"

fun show_nat :: "nat \<Rightarrow> string" where
  "show_nat n = (if n div 10 = 0 then [digit_char n] else show_nat (n div 10) @ [digit_char (n mod 10)])"

text \<open>\<^verbatim>\<open>Number.prototype.toString\<close> (and string concatenation with a number) on an integer.\<close>

definition Number_toString :: "int \<Rightarrow> string" where
  "Number_toString i = (if i < 0 then CHR ''-'' # show_nat (nat (- i)) else show_nat (nat i))"

subsection \<open>\<^verbatim>\<open>JSON.stringify\<close>\<close>

definition hex_char :: "nat \<Rightarrow> char" where
  "hex_char d = ''0123456789abcdef'' ! d"

text \<open>The escape of one code unit inside a JSON string (ECMAScript's QuoteJSONString).\<close>

definition escape_char :: "char \<Rightarrow> string" where
  "escape_char c =
    (if c = CHR 0x08 then [BSL, CHR ''b'']
     else if c = CHR 0x09 then [BSL, CHR ''t'']
     else if c = NL then [BSL, CHR ''n'']
     else if c = CHR 0x0C then [BSL, CHR ''f'']
     else if c = CHR 0x0D then [BSL, CHR ''r'']
     else if c = DQ then [BSL, DQ]
     else if c = BSL then [BSL, BSL]
     else if (of_char c :: nat) < 32 then
       [BSL, CHR ''u'', CHR ''0'', CHR ''0'', hex_char (of_char c div 16), hex_char (of_char c mod 16)]
     else [c])"

definition QuoteJSONString :: "string \<Rightarrow> string" where
  "QuoteJSONString s = DQ # concat (map escape_char s) @ [DQ]"

fun JSON_stringify :: "json \<Rightarrow> string"
  and stringify_elements :: "json list \<Rightarrow> string"
  and stringify_members :: "(string \<times> json) list \<Rightarrow> string"
where
  "JSON_stringify JNull = ''null''"
| "JSON_stringify (JBool b) = (if b then ''true'' else ''false'')"
| "JSON_stringify (JNum i) = Number_toString i"
| "JSON_stringify (JStr s) = QuoteJSONString s"
| "JSON_stringify (JArr xs) = CHR ''['' # stringify_elements xs @ '']''"
| "JSON_stringify (JObj ms) = CHR ''{'' # stringify_members ms @ ''}''"
| "stringify_elements [] = []"
| "stringify_elements [x] = JSON_stringify x"
| "stringify_elements (x # y # ys) = JSON_stringify x @ CHR '','' # stringify_elements (y # ys)"
| "stringify_members [] = []"
| "stringify_members [(k, v)] = QuoteJSONString k @ CHR '':'' # JSON_stringify v"
| "stringify_members ((k, v) # m # ms) =
     QuoteJSONString k @ CHR '':'' # JSON_stringify v @ CHR '','' # stringify_members (m # ms)"

subsection \<open>\<^verbatim>\<open>JSON.parse\<close>\<close>

definition is_ws :: "char \<Rightarrow> bool" where
  "is_ws c = (c = CHR '' '' \<or> c = CHR 0x09 \<or> c = NL \<or> c = CHR 0x0D)"

definition skip_ws :: "string \<Rightarrow> string" where
  "skip_ws s = dropWhile is_ws s"

definition is_digit :: "char \<Rightarrow> bool" where
  "is_digit c = ((48::nat) \<le> of_char c \<and> (of_char c :: nat) \<le> 57)"

definition digit_val :: "char \<Rightarrow> nat" where
  "digit_val c = of_char c - 48"

definition digits_val :: "string \<Rightarrow> nat" where
  "digits_val ds = foldl (\<lambda>acc c. 10 * acc + digit_val c) 0 ds"

definition hex_val :: "char \<Rightarrow> nat option" where
  "hex_val c =
    (let n = (of_char c :: nat) in
     if 48 \<le> n \<and> n \<le> 57 then Some (n - 48)
     else if 97 \<le> n \<and> n \<le> 102 then Some (n - 87)
     else if 65 \<le> n \<and> n \<le> 70 then Some (n - 55)
     else None)"

text \<open>The code unit of \<^verbatim>\<open>\uXXXX\<close>; a code unit of 256 or more is outside the model.\<close>

definition hex4 :: "char \<Rightarrow> char \<Rightarrow> char \<Rightarrow> char \<Rightarrow> char option" where
  "hex4 a b c d =
    (case (hex_val a, hex_val b, hex_val c, hex_val d) of
       (Some x, Some y, Some z, Some w) \<Rightarrow>
         (let n = ((x * 16 + y) * 16 + z) * 16 + w in if n < 256 then Some (char_of n) else None)
     | _ \<Rightarrow> None)"

definition unescape :: "char \<Rightarrow> char option" where
  "unescape e =
    (if e = DQ then Some DQ
     else if e = BSL then Some BSL
     else if e = CHR ''/'' then Some (CHR ''/'')
     else if e = CHR ''b'' then Some (CHR 0x08)
     else if e = CHR ''f'' then Some (CHR 0x0C)
     else if e = CHR ''n'' then Some NL
     else if e = CHR ''r'' then Some (CHR 0x0D)
     else if e = CHR ''t'' then Some (CHR 0x09)
     else None)"

definition cons_result :: "char \<Rightarrow> (string \<times> string) option \<Rightarrow> (string \<times> string) option" where
  "cons_result c res = (case res of None \<Rightarrow> None | Some (str, rest) \<Rightarrow> Some (c # str, rest))"

text \<open>The characters of a string literal after its opening quote, up to the closing quote.\<close>

fun parse_chars :: "string \<Rightarrow> (string \<times> string) option" where
  "parse_chars [] = None"
| "parse_chars (c # r) =
    (if c = DQ then Some ([], r)
     else if c = BSL then
       (case r of
          [] \<Rightarrow> None
        | e # r1 \<Rightarrow>
            if e = CHR ''u'' then
              (case r1 of
                 h1 # h2 # h3 # h4 # r2 \<Rightarrow>
                   (case hex4 h1 h2 h3 h4 of
                      None \<Rightarrow> None
                    | Some ch \<Rightarrow> cons_result ch (parse_chars r2))
               | _ \<Rightarrow> None)
            else
              (case unescape e of
                 None \<Rightarrow> None
               | Some ch \<Rightarrow> cons_result ch (parse_chars r1)))
     else if (of_char c :: nat) < 32 then None
     else cons_result c (parse_chars r))"

text \<open>
  An integer literal: an optional minus sign, then digits with no leading zero.  A fraction
  or an exponent is outside the model and rejected.
\<close>

definition parse_number :: "string \<Rightarrow> (json \<times> string) option" where
  "parse_number s =
    (let neg = (s \<noteq> [] \<and> hd s = CHR ''-'');
         s1 = (if neg then tl s else s);
         ds = takeWhile is_digit s1;
         r = dropWhile is_digit s1
     in if ds = [] then None
        else if 1 < length ds \<and> hd ds = CHR ''0'' then None
        else if r \<noteq> [] \<and> (hd r = CHR ''.'' \<or> hd r = CHR ''e'' \<or> hd r = CHR ''E'') then None
        else Some (JNum (if neg then - int (digits_val ds) else int (digits_val ds)), r))"

definition expect :: "string \<Rightarrow> json \<Rightarrow> string \<Rightarrow> (json \<times> string) option" where
  "expect lit v s = (if prefix lit s then Some (v, drop (length lit) s) else None)"

text \<open>
  An object keeps one property per key: a repeated key overwrites the value and keeps the
  place of its first occurrence.  (JavaScript also moves array-index keys to the front;
  that reordering is not modelled.)
\<close>

definition make_object :: "(string \<times> json) list \<Rightarrow> json" where
  "make_object ms = JObj (foldl (\<lambda>acc (k, v). AList.update k v acc) [] ms)"

text \<open>
  Recursive descent with fuel: one unit per nested call.  \<open>JSON_parse\<close> below supplies
  more fuel than any text can use.
\<close>

fun parse_value :: "nat \<Rightarrow> string \<Rightarrow> (json \<times> string) option"
  and parse_elements :: "nat \<Rightarrow> string \<Rightarrow> (json list \<times> string) option"
  and parse_members :: "nat \<Rightarrow> string \<Rightarrow> ((string \<times> json) list \<times> string) option"
where
  "parse_value 0 s = None"
| "parse_value (Suc n) s =
    (case skip_ws s of
       [] \<Rightarrow> None
     | c # r \<Rightarrow>
         if c = CHR ''n'' then expect ''ull'' JNull r
         else if c = CHR ''t'' then expect ''rue'' (JBool True) r
         else if c = CHR ''f'' then expect ''alse'' (JBool False) r
         else if c = DQ then
           (case parse_chars r of None \<Rightarrow> None | Some (str, r1) \<Rightarrow> Some (JStr str, r1))
         else if c = CHR ''['' then
           (if skip_ws r \<noteq> [] \<and> hd (skip_ws r) = CHR '']'' then Some (JArr [], tl (skip_ws r))
            else (case parse_elements n r of None \<Rightarrow> None | Some (xs, r1) \<Rightarrow> Some (JArr xs, r1)))
         else if c = CHR ''{'' then
           (if skip_ws r \<noteq> [] \<and> hd (skip_ws r) = CHR ''}'' then Some (JObj [], tl (skip_ws r))
            else (case parse_members n r of None \<Rightarrow> None | Some (ms, r1) \<Rightarrow> Some (make_object ms, r1)))
         else parse_number (c # r))"
| "parse_elements 0 s = None"
| "parse_elements (Suc n) s =
    (case parse_value n s of
       None \<Rightarrow> None
     | Some (x, r) \<Rightarrow>
         (case skip_ws r of
            [] \<Rightarrow> None
          | c # r1 \<Rightarrow>
              if c = CHR '','' then
                (case parse_elements n r1 of None \<Rightarrow> None | Some (xs, r2) \<Rightarrow> Some (x # xs, r2))
              else if c = CHR '']'' then Some ([x], r1)
              else None))"
| "parse_members 0 s = None"
| "parse_members (Suc n) s =
    (case skip_ws s of
       [] \<Rightarrow> None
     | q # r \<Rightarrow>
         if q \<noteq> DQ then None
         else
           (case parse_chars r of
              None \<Rightarrow> None
            | Some (k, r1) \<Rightarrow>
                (case skip_ws r1 of
                   [] \<Rightarrow> None
                 | colon # r2 \<Rightarrow>
                     if colon \<noteq> CHR '':'' then None
                     else
                       (case parse_value n r2 of
                          None \<Rightarrow> None
                        | Some (v, r3) \<Rightarrow>
                            (case skip_ws r3 of
                               [] \<Rightarrow> None
                             | c # r4 \<Rightarrow>
                                 if c = CHR '','' then
                                   (case parse_members n r4 of
                                      None \<Rightarrow> None
                                    | Some (ms, r5) \<Rightarrow> Some ((k, v) # ms, r5))
                                 else if c = CHR ''}'' then Some ([(k, v)], r4)
                                 else None)))))"

definition JSON_parse :: "string \<Rightarrow> json option" where
  "JSON_parse s =
    (case parse_value (2 * length s + 2) s of
       None \<Rightarrow> None
     | Some (v, r) \<Rightarrow> if skip_ws r = [] then Some v else None)"

section \<open>Thread store (\<^verbatim>\<open>src/lib/threadManager.ts\<close>)\<close>

subsection \<open>Platform model: \<^verbatim>\<open>localStorage\<close>, the console, the clock\<close>

text \<open>
  \<^verbatim>\<open>localStorage\<close> maps keys to strings, in insertion order, and has a quota: \<^verbatim>\<open>setItem\<close>
  throws \<^verbatim>\<open>QuotaExceededError\<close> when the keys and values together would exceed it.
\<close>

record Storage =
  entries :: "(string \<times> string) list"
  quota :: nat

definition storage_size :: "(string \<times> string) list \<Rightarrow> nat" where
  "storage_size es = sum_list (map (\<lambda>(k, v). length k + length v) es)"

definition Storage_setItem :: "string \<Rightarrow> string \<Rightarrow> Storage \<Rightarrow> js_error + Storage" where
  "Storage_setItem k v st =
    (let es = AList.update k v (entries st)
     in if quota st < storage_size es then Inl QuotaExceededError
        else Inr (st\<lparr>entries := es\<rparr>))"

definition Storage_getItem :: "string \<Rightarrow> Storage \<Rightarrow> string option" where
  "Storage_getItem k st = map_of (entries st) k"

text \<open>
  The browser as the thread store sees it: the storage, the lines written by
  \<^verbatim>\<open>console.error\<close> (message and error), and the value of \<^verbatim>\<open>Date.now()\<close>.
\<close>

record browser =
  localStorage :: Storage
  console :: "(string \<times> js_error) list"
  now :: int

definition console_error :: "string \<Rightarrow> js_error \<Rightarrow> browser \<Rightarrow> browser" where
  "console_error msg e b = b\<lparr>console := console b @ [(msg, e)]\<rparr>"

subsection \<open>Messages\<close>

datatype Role = User | Agent | Assistant

record Message =
  role :: Role
  agentName :: "string option"
  content :: string
  timestamp :: "int option"

definition Role_string :: "Role \<Rightarrow> string" where
  "Role_string r = (case r of User \<Rightarrow> ''user'' | Agent \<Rightarrow> ''agent'' | Assistant \<Rightarrow> ''assistant'')"

text \<open>A message as a JavaScript object; an optional field that is not set is absent.\<close>

definition Message_value :: "Message \<Rightarrow> json" where
  "Message_value m =
    JObj ([(''role'', JStr (Role_string (role m)))]
          @ (case agentName m of None \<Rightarrow> [] | Some a \<Rightarrow> [(''agentName'', JStr a)])
          @ [(''content'', JStr (content m))]
          @ (case timestamp m of None \<Rightarrow> [] | Some t \<Rightarrow> [(''timestamp'', JNum t)]))"

definition Messages_value :: "Message list \<Rightarrow> json" where
  "Messages_value ms = JArr (map Message_value ms)"

subsection \<open>The operations\<close>

definition THREAD_PREFIX :: string where
  "THREAD_PREFIX = ''aeth_chat_thread_''"

definition String_startsWith :: "string \<Rightarrow> string \<Rightarrow> bool" where
  "String_startsWith s p = prefix p s"

text \<open>
  The functions are \<^verbatim>\<open>async\<close>: a result \<open>Inl e\<close> is a promise rejected with \<open>e\<close>, \<open>Inr v\<close> one
  fulfilled with \<open>v\<close>.
\<close>

definition createNewThreadId :: "browser \<Rightarrow> (js_error + string) \<times> browser" where
  "createNewThreadId b =
    (let threadId = THREAD_PREFIX @ Number_toString (now b)
     in case Storage_setItem threadId (JSON_stringify (JArr [])) (localStorage b) of
          Inl e \<Rightarrow> (Inl e, b)
        | Inr st \<Rightarrow> (Inr threadId, b\<lparr>localStorage := st\<rparr>))"

definition saveMessagesToThread :: "string \<Rightarrow> Message list \<Rightarrow> browser \<Rightarrow> (js_error + unit) \<times> browser" where
  "saveMessagesToThread threadId messages b =
    (if threadId = [] \<or> \<not> String_startsWith threadId THREAD_PREFIX then (Inr (), b)
     else
       (case Storage_setItem threadId (JSON_stringify (Messages_value messages)) (localStorage b) of
          Inl error \<Rightarrow> (Inr (), console_error ''Failed to save messages to localStorage:'' error b)
        | Inr st \<Rightarrow> (Inr (), b\<lparr>localStorage := st\<rparr>)))"

text \<open>
  The parsed value is returned as it is (\<^verbatim>\<open>as Message[]\<close> is a cast, not a check), so the
  result is a \<open>json\<close>.
\<close>

definition getMessagesForThread :: "string \<Rightarrow> browser \<Rightarrow> (js_error + json) \<times> browser" where
  "getMessagesForThread threadId b =
    (if threadId = [] \<or> \<not> String_startsWith threadId THREAD_PREFIX then (Inr (JArr []), b)
     else
       (case Storage_getItem threadId (localStorage b) of
          None \<Rightarrow> (Inr (JArr []), b)
        | Some data \<Rightarrow>
            if data = [] then (Inr (JArr []), b)
            else
              (case JSON_parse data of
                 None \<Rightarrow>
                   (Inr (JArr []),
                    console_error ''Failed to retrieve or parse messages from localStorage:'' SyntaxError b)
               | Some v \<Rightarrow> (Inr v, b))))"

subsection \<open>Export\<close>

text \<open>\<^verbatim>\<open>String.prototype.replace\<close> with a string pattern: the first occurrence only.\<close>

fun String_replace :: "string \<Rightarrow> string \<Rightarrow> string \<Rightarrow> string" where
  "String_replace [] pat rep = (if pat = [] then rep else [])"
| "String_replace (c # s) pat rep =
    (if prefix pat (c # s) then rep @ drop (length pat) (c # s)
     else c # String_replace s pat rep)"

fun Array_join :: "string \<Rightarrow> string list \<Rightarrow> string" where
  "Array_join sep [] = []"
| "Array_join sep [x] = x"
| "Array_join sep (x # y # ys) = x @ sep @ Array_join sep (y # ys)"

definition heading :: "Message \<Rightarrow> string" where
  "heading msg =
    (if role msg = User then ''User Input''
     else (case agentName msg of
             None \<Rightarrow> ''Agent Response''
           | Some a \<Rightarrow> if a = [] then ''Agent Response'' else a))"

definition formatThreadForExport :: "string \<Rightarrow> Message list \<Rightarrow> string" where
  "formatThreadForExport threadId messages =
    (let title = String_replace threadId THREAD_PREFIX [];
         markdownContent =
           Array_join (NL # ''---'' @ [NL, NL])
             (map (\<lambda>msg. ''### '' @ heading msg @ NL # content msg @ [NL]) messages)
     in ''# Chat Thread Log: '' @ title @ NL # NL # markdownContent)"

section \<open>Reflection summarizer (\<^verbatim>\<open>src/lib/aslParser.ts\<close>)\<close>

record exchange =
  prompt :: string
  response :: string

definition runIntrospectiveAnalysis :: "exchange list \<Rightarrow> string" where
  "runIntrospectiveAnalysis thread =
    (let summary =
           map (\<lambda>e. JObj
                  [(''intent'', JStr (''Analyzed: '' @ take 50 (prompt e) @ ''...'')),
                   (''reasoning'', JStr (''Response: '' @ take 50 (response e) @ ''...'')),
                   (''aslOutput'',
                      JObj [(''module'', JStr ''PremierChat''),
                            (''action'', JStr ''reflect''),
                            (''purpose'', JStr ''Introspective synthesis'')])])
               thread
     in JSON_stringify (JArr summary))"

section \<open>Server endpoints\<close>

text \<open>What \<^verbatim>\<open>NextResponse.json(body, { status })\<close> builds; the status is 200 when none is given.\<close>

record NextResponse =
  status :: nat
  body :: json

definition NextResponse_json :: "json \<Rightarrow> NextResponse" where
  "NextResponse_json v = \<lparr>status = 200, body = v\<rparr>"

subsection \<open>Platform model: the server's files and clock\<close>

text \<open>
  The file system maps a path to the directory or the file that is there, and has some free
  space.  Both operations can fail, with a \<^verbatim>\<open>SystemError\<close>, and then change nothing.  Requests
  are handled one at a time.
\<close>

datatype node = Directory | File string

record server =
  cwd :: string
  nodes :: "string \<rightharpoonup> node"
  free :: nat
  clock :: int

text \<open>The directories on the way to a path, the outermost first, and the path itself.\<close>

fun path_prefixes :: "string \<Rightarrow> string \<Rightarrow> string list" where
  "path_prefixes acc [] = (if acc = [] then [] else [acc])"
| "path_prefixes acc (c # r) =
    (if c = CHR ''/'' \<and> acc \<noteq> [] then acc # path_prefixes (acc @ [c]) r
     else path_prefixes (acc @ [c]) r)"

fun mkdirs :: "string list \<Rightarrow> (string \<rightharpoonup> node) \<Rightarrow> js_error + (string \<rightharpoonup> node)" where
  "mkdirs [] ns = Inr ns"
| "mkdirs (d # ds) ns =
    (case ns d of
       Some (File c) \<Rightarrow> Inl SystemError
     | Some Directory \<Rightarrow> mkdirs ds ns
     | None \<Rightarrow> mkdirs ds (ns(d \<mapsto> Directory)))"

text \<open>
  \<^verbatim>\<open>fs.mkdir(p, { recursive: true })\<close>: creates the missing directories down to \<open>p\<close>; fails when
  a file is in the way.
\<close>

definition fs_mkdir :: "string \<Rightarrow> server \<Rightarrow> (js_error + unit) \<times> server" where
  "fs_mkdir p s =
    (case mkdirs (path_prefixes [] p) (nodes s) of
       Inl e \<Rightarrow> (Inl e, s)
     | Inr ns \<Rightarrow> (Inr (), s\<lparr>nodes := ns\<rparr>))"

definition dirname :: "string \<Rightarrow> string" where
  "dirname p = rev (drop 1 (dropWhile (\<lambda>c. c \<noteq> CHR ''/'') (rev p)))"

text \<open>
  \<^verbatim>\<open>fs.appendFile(p, data)\<close>: creates the file when it is missing; fails when the directory
  of \<open>p\<close> is missing, when \<open>p\<close> is a directory, and when the data does not fit the free space.
\<close>

definition fs_appendFile :: "string \<Rightarrow> string \<Rightarrow> server \<Rightarrow> (js_error + unit) \<times> server" where
  "fs_appendFile p data s =
    (if nodes s (dirname p) \<noteq> Some Directory then (Inl SystemError, s)
     else if nodes s p = Some Directory then (Inl SystemError, s)
     else if free s < length data then (Inl SystemError, s)
     else (Inr (),
           s\<lparr>nodes := (nodes s)(p \<mapsto> File ((case nodes s p of Some (File old) \<Rightarrow> old | _ \<Rightarrow> []) @ data)),
             free := free s - length data\<rparr>))"

text \<open>
  \<^verbatim>\<open>path.join\<close> of an absolute, normalised directory (what \<^verbatim>\<open>process.cwd()\<close> returns) and a
  relative path with no \<^verbatim>\<open>.\<close> or \<^verbatim>\<open>..\<close> segment.
\<close>

definition path_join :: "string \<Rightarrow> string \<Rightarrow> string" where
  "path_join a b = (if a \<noteq> [] \<and> last a = CHR ''/'' then a @ b else a @ CHR ''/'' # b)"

text \<open>
  \<^verbatim>\<open>Date.prototype.toISOString\<close>.  A time value is milliseconds since 1970-01-01T00:00:00Z;
  \<open>utc_ymd\<close> is the proleptic Gregorian date of a day number (days since 1970-01-01).
\<close>

definition utc_ymd :: "int \<Rightarrow> int \<times> int \<times> int" where
  "utc_ymd day =
    (let z = day + 719468;
         era = z div 146097;
         doe = z mod 146097;
         yoe = (doe - doe div 1460 + doe div 36524 - doe div 146096) div 365;
         doy = doe - (365 * yoe + yoe div 4 - yoe div 100);
         mp = (5 * doy + 2) div 153;
         d = doy - (153 * mp + 2) div 5 + 1;
         m = (if mp < 10 then mp + 3 else mp - 9);
         y = yoe + era * 400 + (if m \<le> 2 then 1 else 0)
     in (y, m, d))"

definition pad :: "nat \<Rightarrow> nat \<Rightarrow> string" where
  "pad w n = replicate (w - length (show_nat n)) (CHR ''0'') @ show_nat n"

definition year_string :: "int \<Rightarrow> string" where
  "year_string y =
    (if 0 \<le> y \<and> y \<le> 9999 then pad 4 (nat y)
     else (if y < 0 then CHR ''-'' else CHR ''+'') # pad 6 (nat \<bar>y\<bar>))"

definition utc_date :: "int \<Rightarrow> string" where
  "utc_date day =
    (case utc_ymd day of (y, m, d) \<Rightarrow> year_string y @ CHR ''-'' # pad 2 (nat m) @ CHR ''-'' # pad 2 (nat d))"

definition ms_per_day :: int where
  "ms_per_day = 86400000"

definition Date_toISOString :: "int \<Rightarrow> string" where
  "Date_toISOString t =
    (let r = nat (t mod ms_per_day)
     in utc_date (t div ms_per_day) @ CHR ''T'' # pad 2 (r div 3600000) @ CHR '':'' #
        pad 2 (r div 60000 mod 60) @ CHR '':'' # pad 2 (r div 1000 mod 60) @ CHR ''.'' #
        pad 3 (r mod 1000) @ ''Z'')"

text \<open>\<^verbatim>\<open>s.split(c)[0]\<close>: the part of \<open>s\<close> before the first \<open>c\<close>.\<close>

definition split_first :: "char \<Rightarrow> string \<Rightarrow> string" where
  "split_first c s = takeWhile (\<lambda>x. x \<noteq> c) s"

subsection \<open>Memory log sink (\<^verbatim>\<open>src/app/api/memory-log/route.ts\<close>)\<close>

text \<open>
  The request is its body text.  \<^verbatim>\<open>request.json()\<close> and \<^verbatim>\<open>JSON.stringify\<close> belong to the platform;
  the handler is modelled for any such pair: \<open>request_json\<close> gives the parsed body, or \<open>None\<close>
  when it throws, and \<open>stringify\<close> the text of a value.  An error of \<^verbatim>\<open>mkdir\<close> or \<^verbatim>\<open>appendFile\<close>
  is not caught and rejects the handler.
\<close>

definition logsDir :: "server \<Rightarrow> string" where
  "logsDir s = path_join (cwd s) ''logs/MemoryLogs''"

definition logPath :: "server \<Rightarrow> string" where
  "logPath s =
    path_join (logsDir s) (''log_'' @ split_first (CHR ''T'') (Date_toISOString (clock s)) @ ''.json'')"

definition POST_memory_log ::
  "(string \<Rightarrow> 'v option) \<Rightarrow> ('v \<Rightarrow> string) \<Rightarrow> string \<Rightarrow> server \<Rightarrow> (js_error + NextResponse) \<times> server"
where
  "POST_memory_log request_json stringify request s =
    (case request_json request of
       None \<Rightarrow> (Inl SyntaxError, s)
     | Some logEntry \<Rightarrow>
         (case fs_mkdir (logsDir s) s of
            (Inl e, s1) \<Rightarrow> (Inl e, s1)
          | (Inr u, s1) \<Rightarrow>
              (case fs_appendFile (logPath s) (stringify logEntry @ [NL]) s1 of
                 (Inl e, s2) \<Rightarrow> (Inl e, s2)
               | (Inr u, s2) \<Rightarrow> (Inr (NextResponse_json (JObj [(''status'', JStr ''Logged'')])), s2))))"

subsection \<open>Audit (\<^verbatim>\<open>src/app/api/audit/[threadId]/route.ts\<close>)\<close>

text \<open>The handler takes no argument; the thread id of the route is the parameter it ignores.\<close>

definition GET_audit :: "string \<Rightarrow> server \<Rightarrow> (js_error + NextResponse) \<times> server" where
  "GET_audit threadId s =
    (Inr \<lparr>status = 501,
          body = JObj [(''error'',
            JStr ''Thread audit is not available server-side. Please implement client-side or via a persistent API.'')]\<rparr>,
     s)"

subsection \<open>Chat gateway (\<^verbatim>\<open>src/app/api/chat-with-premier/route.ts\<close>)\<close>

record ChatCompletionRequest =
  model :: string
  messages :: "json list"
  temperature :: rat
  max_tokens :: nat

text \<open>
  The hosted API: the requests sent to it so far, and its answer to a request (the
  \<^verbatim>\<open>choices\<close> of the completion, or a failure).
\<close>

record hosted_api =
  requests :: "ChatCompletionRequest list"
  respond :: "ChatCompletionRequest \<Rightarrow> js_error + json list"

definition system_preamble :: json where
  "system_preamble =
    JObj [(''role'', JStr ''system''),
          (''content'', JStr ''You are Premier, the primary agent of AetheroOS, orchestrating Signal Root with introspective reasoning in ASL.'')]"

text \<open>
  \<^verbatim>\<open>const { prompt, context } = v\<close>: \<open>None\<close> is \<^verbatim>\<open>undefined\<close>.  Destructuring \<^verbatim>\<open>null\<close> throws.
\<close>

definition destructure :: "json \<Rightarrow> js_error + (json option \<times> json option)" where
  "destructure v =
    (case v of
       JNull \<Rightarrow> Inl TypeError
     | JObj ms \<Rightarrow> Inr (map_of ms ''prompt'', map_of ms ''context'')
     | _ \<Rightarrow> Inr (None, None))"

text \<open>
  \<^verbatim>\<open>...(context || [])\<close>: a falsy context is replaced by the empty array; an array is spread
  into its elements and a string into its characters; spreading anything else throws.
\<close>

definition spread_context :: "json option \<Rightarrow> js_error + json list" where
  "spread_context context =
    (case context of
       None \<Rightarrow> Inr []
     | Some JNull \<Rightarrow> Inr []
     | Some (JBool b) \<Rightarrow> if b then Inl TypeError else Inr []
     | Some (JNum n) \<Rightarrow> if n = 0 then Inr [] else Inl TypeError
     | Some (JStr s) \<Rightarrow> Inr (map (\<lambda>c. JStr [c]) s)
     | Some (JArr xs) \<Rightarrow> Inr xs
     | Some (JObj ms) \<Rightarrow> Inl TypeError)"

text \<open>A property whose value is \<^verbatim>\<open>undefined\<close> is not sent; it is modelled as absent.\<close>

definition user_message :: "json option \<Rightarrow> json" where
  "user_message prompt_value =
    JObj ((''role'', JStr ''user'') #
          (case prompt_value of None \<Rightarrow> [] | Some p \<Rightarrow> [(''content'', p)]))"

text \<open>\<^verbatim>\<open>v?.k\<close> for a key that no string or array has, and \<^verbatim>\<open>v ?? d\<close>.\<close>

definition opt_prop :: "string \<Rightarrow> json option \<Rightarrow> json option" where
  "opt_prop k v = (case v of Some (JObj ms) \<Rightarrow> map_of ms k | _ \<Rightarrow> None)"

definition nullish_or :: "json option \<Rightarrow> json \<Rightarrow> json" where
  "nullish_or v d = (case v of None \<Rightarrow> d | Some JNull \<Rightarrow> d | Some x \<Rightarrow> x)"

definition first_content :: "json list \<Rightarrow> json" where
  "first_content choices =
    nullish_or
      (opt_prop ''content'' (opt_prop ''message'' (case choices of [] \<Rightarrow> None | c # _ \<Rightarrow> Some c)))
      (JStr [])"

definition POST_chat :: "string \<Rightarrow> hosted_api \<Rightarrow> (js_error + NextResponse) \<times> hosted_api" where
  "POST_chat req api =
    (case JSON_parse req of
       None \<Rightarrow> (Inl SyntaxError, api)
     | Some v \<Rightarrow>
         (case destructure v of
            Inl e \<Rightarrow> (Inl e, api)
          | Inr (prompt_value, context) \<Rightarrow>
              (case spread_context context of
                 Inl e \<Rightarrow> (Inl e, api)
               | Inr ctx \<Rightarrow>
                   (let rq = \<lparr>model = ''gpt-4o'',
                              messages = [system_preamble] @ ctx @ [user_message prompt_value],
                              temperature = 7 / 10,
                              max_tokens = 1000\<rparr>;
                        api1 = api\<lparr>requests := requests api @ [rq]\<rparr>
                    in case respond api rq of
                         Inl e \<Rightarrow> (Inl e, api1)
                       | Inr choices \<Rightarrow>
                           (Inr (NextResponse_json (JObj [(''content'', first_content choices)])), api1)))))"

section \<open>Definitions for stating the properties\<close>

text \<open>
  \<open>interleave frames contents\<close> is the text \<open>f\<^sub>0 c\<^sub>1 f\<^sub>1 \<dots> c\<^sub>n f\<^sub>n\<close>: every content once, in order,
  between the frames.
\<close>

fun interleave :: "string list \<Rightarrow> string list \<Rightarrow> string" where
  "interleave [] cs = []"
| "interleave (f # fs) [] = f"
| "interleave (f # fs) (c # cs) = f @ c @ interleave fs cs"

text \<open>
  The heading of a message as the specification has it: from the role, or else from the
  agent name.
\<close>

definition heading_text :: "Role \<Rightarrow> string option \<Rightarrow> string" where
  "heading_text r a =
    (case r of
       User \<Rightarrow> ''User Input''
     | _ \<Rightarrow> (case a of None \<Rightarrow> ''Agent Response'' | Some n \<Rightarrow> if n = [] then ''Agent Response'' else n))"

text \<open>
  The frames of an exported thread: the title line and the first heading, then after each
  content the separator and the next heading.  They are computed from the thread id and from
  the role and agent name of each message; no content goes in.
\<close>

fun frames_after :: "(Role \<times> string option) list \<Rightarrow> string list" where
  "frames_after [] = [[NL]]"
| "frames_after ((r, a) # hs) =
     ([NL] @ NL # ''---'' @ [NL, NL] @ ''### '' @ heading_text r a @ [NL]) # frames_after hs"

definition export_frames :: "string \<Rightarrow> (Role \<times> string option) list \<Rightarrow> string list" where
  "export_frames threadId hs =
    (case hs of
       [] \<Rightarrow> [''# Chat Thread Log: '' @ String_replace threadId THREAD_PREFIX [] @ [NL, NL]]
     | (r, a) # hs' \<Rightarrow>
         (''# Chat Thread Log: '' @ String_replace threadId THREAD_PREFIX [] @ [NL, NL] @
          ''### '' @ heading_text r a @ [NL]) # frames_after hs')"

text \<open>The number of places of a text where a pattern occurs.\<close>

fun occurrences :: "string \<Rightarrow> string \<Rightarrow> nat" where
  "occurrences pat [] = (if pat = [] then 1 else 0)"
| "occurrences pat (c # s) = (if prefix pat (c # s) then 1 else 0) + occurrences pat s"

text \<open>What may follow an integer literal: the end of the text, or a character that cannot continue it.\<close>

definition number_end :: "string \<Rightarrow> bool" where
  "number_end r = (r = [] \<or> (\<not> is_digit (hd r) \<and> hd r \<noteq> CHR ''.'' \<and> hd r \<noteq> CHR ''e'' \<and> hd r \<noteq> CHR ''E''))"

text \<open>A value is well formed when no object in it has two properties of the same key.\<close>

fun wf_json :: "json \<Rightarrow> bool"
  and wf_elements :: "json list \<Rightarrow> bool"
  and wf_members :: "(string \<times> json) list \<Rightarrow> bool"
where
  "wf_json (JArr xs) = wf_elements xs"
| "wf_json (JObj ms) = (distinct (map fst ms) \<and> wf_members ms)"
| "wf_json v = True"
| "wf_elements [] = True"
| "wf_elements (x # xs) = (wf_json x \<and> wf_elements xs)"
| "wf_members [] = True"
| "wf_members ((k, v) # ms) = (wf_json v \<and> wf_members ms)"

text \<open>A text that starts, without white space, with the first character of a value or a key.\<close>

definition value_first :: "string \<Rightarrow> bool" where
  "value_first s = (s \<noteq> [] \<and> \<not> is_ws (hd s) \<and> hd s \<noteq> CHR '']'' \<and> hd s \<noteq> CHR ''}'')"

section \<open>Properties of the platform model\<close>

declare show_nat.simps [simp del]

lemma digit_char_in: "d < 10 \<Longrightarrow> digit_char d \<in> set ''0123456789''"
  unfolding digit_char_def by (rule nth_mem) simp

lemma hex_char_in: "d < 16 \<Longrightarrow> hex_char d \<in> set ''0123456789abcdef''"
  unfolding hex_char_def by (rule nth_mem) simp

lemma set_show_nat: "set (show_nat n) \<subseteq> set ''0123456789''"
proof (induction n rule: show_nat.induct)
  case (1 n)
  show ?case
  proof (cases "n div 10 = 0")
    case True
    then have "n < 10" by simp
    then show ?thesis using digit_char_in [of n] True by (subst show_nat.simps) simp
  next
    case False
    have "n mod 10 < 10" by simp
    from digit_char_in [OF this] 1 [OF False] False show ?thesis
      by (subst show_nat.simps) simp
  qed
qed

lemma show_nat_nonempty: "show_nat n \<noteq> []"
  by (subst show_nat.simps) simp

lemma T_notin_show_nat: "CHR ''T'' \<notin> set (show_nat n)"
  using set_show_nat [of n] by auto

lemma NL_notin_show_nat: "NL \<notin> set (show_nat n)"
  using set_show_nat [of n] by auto

lemma T_notin_pad: "CHR ''T'' \<notin> set (pad w n)"
  by (simp add: pad_def T_notin_show_nat)

lemma T_notin_year_string: "CHR ''T'' \<notin> set (year_string y)"
  by (simp add: year_string_def T_notin_pad)

lemma T_notin_utc_date: "CHR ''T'' \<notin> set (utc_date d)"
  by (simp add: utc_date_def T_notin_pad T_notin_year_string split: prod.splits)

lemma takeWhile_until: "c \<notin> set xs \<Longrightarrow> takeWhile (\<lambda>x. x \<noteq> c) (xs @ c # ys) = xs"
  by (induction xs) auto

text \<open>The date part of the ISO string is the calendar date of the UTC day of the time value.\<close>

lemma split_first_toISOString:
  "split_first (CHR ''T'') (Date_toISOString t) = utc_date (t div ms_per_day)"
  unfolding split_first_def Date_toISOString_def Let_def
  by (rule takeWhile_until [OF T_notin_utc_date])

lemma hex_char_neq_NL: "d < 16 \<Longrightarrow> hex_char d \<noteq> NL"
  using hex_char_in [of d] by auto

lemma NL_notin_escape_char: "NL \<notin> set (escape_char c)"
proof (cases "of_char c < (32::nat)")
  case True
  then have "of_char c div 16 < (16::nat)" "of_char c mod 16 < (16::nat)" by simp_all
  then show ?thesis by (simp add: escape_char_def hex_char_neq_NL not_sym)
next
  case False
  then show ?thesis by (simp add: escape_char_def)
qed

lemma NL_notin_QuoteJSONString: "NL \<notin> set (QuoteJSONString s)"
  using NL_notin_escape_char by (auto simp: QuoteJSONString_def)

lemma NL_notin_Number_toString: "NL \<notin> set (Number_toString i)"
  by (simp add: Number_toString_def NL_notin_show_nat)

text \<open>\<^verbatim>\<open>JSON.stringify\<close> (called without indentation) writes its value on one line.\<close>

lemma NL_notin_stringify:
  "NL \<notin> set (JSON_stringify j)"
  "NL \<notin> set (stringify_elements xs)"
  "NL \<notin> set (stringify_members ms)"
  by (induction j and xs and ms rule: JSON_stringify_stringify_elements_stringify_members.induct)
     (simp_all add: NL_notin_QuoteJSONString NL_notin_Number_toString)

subsection \<open>Numbers: parsing what was printed\<close>

lemma digit_cases: "d < 10 \<Longrightarrow> d = 0 \<or> d = 1 \<or> d = 2 \<or> d = 3 \<or> d = 4 \<or> d = 5 \<or> d = 6 \<or> d = 7 \<or> d = 8 \<or> d = (9::nat)"
  by arith

lemma is_digit_digit_char: "d < 10 \<Longrightarrow> is_digit (digit_char d)"
  using digit_cases [of d] by (auto simp: is_digit_def digit_char_def)

lemma digit_val_digit_char: "d < 10 \<Longrightarrow> digit_val (digit_char d) = d"
  using digit_cases [of d] by (auto simp: digit_val_def digit_char_def)

lemma digit_char_zero_iff: "d < 10 \<Longrightarrow> digit_char d = CHR ''0'' \<longleftrightarrow> d = 0"
  using digit_cases [of d] by (auto simp: digit_char_def)

lemma show_nat_small: "n < 10 \<Longrightarrow> show_nat n = [digit_char n]"
  by (subst show_nat.simps) simp

lemma show_nat_large: "10 \<le> n \<Longrightarrow> show_nat n = show_nat (n div 10) @ [digit_char (n mod 10)]"
proof -
  assume "10 \<le> n"
  then have "n div 10 \<noteq> 0" by arith
  then show ?thesis by (subst show_nat.simps) simp
qed

lemma list_all_is_digit_show_nat: "list_all is_digit (show_nat n)"
proof (induction n rule: less_induct)
  case (less n)
  show ?case
  proof (cases "n < 10")
    case True
    then show ?thesis by (simp add: show_nat_small is_digit_digit_char)
  next
    case False
    then have "n div 10 < n" by simp
    from less [OF this] False show ?thesis
      by (simp add: show_nat_large is_digit_digit_char)
  qed
qed

lemma digits_val_snoc: "digits_val (ds @ [c]) = 10 * digits_val ds + digit_val c"
  by (simp add: digits_val_def)

lemma digits_val_show_nat: "digits_val (show_nat n) = n"
proof (induction n rule: less_induct)
  case (less n)
  show ?case
  proof (cases "n < 10")
    case True
    then show ?thesis by (simp add: show_nat_small digits_val_def digit_val_digit_char)
  next
    case False
    then have "n div 10 < n" by simp
    from less [OF this] False show ?thesis
      by (simp add: show_nat_large digits_val_snoc digit_val_digit_char)
  qed
qed

lemma hd_show_nat_zero: "hd (show_nat n) = CHR ''0'' \<Longrightarrow> n = 0"
proof (induction n rule: less_induct)
  case (less n)
  show ?case
  proof (cases "n < 10")
    case True
    with less.prems show ?thesis by (simp add: show_nat_small digit_char_zero_iff)
  next
    case False
    then have lt: "n div 10 < n" by simp
    from False less.prems have "hd (show_nat (n div 10)) = CHR ''0''"
      by (simp add: show_nat_large show_nat_nonempty)
    from less.IH [OF lt this] False show ?thesis by simp
  qed
qed

lemma no_leading_zero: "1 < length (show_nat n) \<Longrightarrow> hd (show_nat n) \<noteq> CHR ''0''"
  using hd_show_nat_zero [of n] by (auto simp: show_nat_small)

lemma is_digit_hd_show_nat: "is_digit (hd (show_nat n))"
  using list_all_is_digit_show_nat [of n] show_nat_nonempty [of n]
  by (cases "show_nat n") simp_all

lemma takeWhile_digits:
  "list_all is_digit ds \<Longrightarrow> r = [] \<or> \<not> is_digit (hd r) \<Longrightarrow> takeWhile is_digit (ds @ r) = ds"
  by (induction ds) (auto simp: takeWhile_eq_Nil_iff)

lemma dropWhile_digits:
  "list_all is_digit ds \<Longrightarrow> r = [] \<or> \<not> is_digit (hd r) \<Longrightarrow> dropWhile is_digit (ds @ r) = r"
  by (induction ds) (auto simp: dropWhile_eq_self_iff)

lemma parse_number_show_nat:
  assumes "number_end r"
  shows "parse_number (show_nat n @ r) = Some (JNum (int n), r)"
proof -
  have e: "r = [] \<or> \<not> is_digit (hd r)" using assms by (auto simp: number_end_def)
  have h: "hd (show_nat n @ r) \<noteq> CHR ''-''"
    using is_digit_hd_show_nat [of n] show_nat_nonempty [of n] by (auto simp: is_digit_def)
  have t: "takeWhile is_digit (show_nat n @ r) = show_nat n"
    by (rule takeWhile_digits [OF list_all_is_digit_show_nat e])
  have d: "dropWhile is_digit (show_nat n @ r) = r"
    by (rule dropWhile_digits [OF list_all_is_digit_show_nat e])
  show ?thesis
    using assms h no_leading_zero [of n]
    by (auto simp: parse_number_def Let_def t d show_nat_nonempty digits_val_show_nat number_end_def)
qed

lemma parse_number_Number_toString:
  assumes "number_end r"
  shows "parse_number (Number_toString i @ r) = Some (JNum i, r)"
proof (cases "i < 0")
  case False
  then show ?thesis using parse_number_show_nat [OF assms, of "nat i"]
    by (simp add: Number_toString_def)
next
  case True
  have e: "r = [] \<or> \<not> is_digit (hd r)" using assms by (auto simp: number_end_def)
  have t: "takeWhile is_digit (show_nat (nat (- i)) @ r) = show_nat (nat (- i))"
    by (rule takeWhile_digits [OF list_all_is_digit_show_nat e])
  have d: "dropWhile is_digit (show_nat (nat (- i)) @ r) = r"
    by (rule dropWhile_digits [OF list_all_is_digit_show_nat e])
  show ?thesis
    using True assms no_leading_zero [of "nat (- i)"]
    by (auto simp: parse_number_def Number_toString_def Let_def t d show_nat_nonempty
        digits_val_show_nat number_end_def)
qed

subsection \<open>Strings: parsing what was quoted\<close>

lemma hex_cases:
  "d < 16 \<Longrightarrow> d = 0 \<or> d = 1 \<or> d = 2 \<or> d = 3 \<or> d = 4 \<or> d = 5 \<or> d = 6 \<or> d = 7 \<or> d = 8 \<or> d = 9
     \<or> d = 10 \<or> d = 11 \<or> d = 12 \<or> d = 13 \<or> d = 14 \<or> d = (15::nat)"
  by arith

lemma hex_val_hex_char: "d < 16 \<Longrightarrow> hex_val (hex_char d) = Some d"
  using hex_cases [of d] by (auto simp: hex_val_def hex_char_def)

lemma hex_val_zero: "hex_val (CHR ''0'') = Some 0"
  by (simp add: hex_val_def)

lemma hex4_escape:
  assumes "of_char c < (32::nat)"
  shows "hex4 (CHR ''0'') (CHR ''0'') (hex_char (of_char c div 16)) (hex_char (of_char c mod 16)) = Some c"
proof -
  from assms have a: "of_char c div 16 < (16::nat)" and b: "of_char c mod 16 < (16::nat)" by simp_all
  have "(of_char c div 16) * 16 + of_char c mod 16 = (of_char c :: nat)" by simp
  then show ?thesis
    using assms by (simp add: hex4_def hex_val_zero hex_val_hex_char [OF a] hex_val_hex_char [OF b])
qed

lemma parse_chars_escape_char:
  "parse_chars (escape_char c @ r) = cons_result c (parse_chars r)"
proof (cases "of_char c < (32::nat)")
  case True
  then show ?thesis
    by (auto simp: escape_char_def unescape_def hex4_escape)
next
  case False
  then show ?thesis
    by (auto simp: escape_char_def unescape_def)
qed

lemma parse_chars_escaped:
  "parse_chars (concat (map escape_char s) @ DQ # r) = Some (s, r)"
  by (induction s) (simp_all add: parse_chars_escape_char cons_result_def del: parse_chars.simps(2), simp)

lemma parse_chars_Quote:
  "parse_chars (tl (QuoteJSONString s) @ r) = Some (s, r)"
  using parse_chars_escaped [of s r] by (simp add: QuoteJSONString_def)

subsection \<open>Values: parsing what was stringified\<close>

lemma skip_ws_value_first: "value_first s \<Longrightarrow> skip_ws s = s"
  by (cases s) (simp_all add: value_first_def skip_ws_def)

lemma update_fresh: "k \<notin> fst ` set al \<Longrightarrow> AList.update k v al = al @ [(k, v)]"
  by (induction al) auto

lemma foldl_update_distinct:
  "distinct (map fst (acc @ ms)) \<Longrightarrow> foldl (\<lambda>acc (k, v). AList.update k v acc) acc ms = acc @ ms"
proof (induction ms arbitrary: acc)
  case Nil
  then show ?case by simp
next
  case (Cons m ms)
  obtain k v where m: "m = (k, v)" by (cases m)
  from Cons.prems have "k \<notin> fst ` set acc" by (auto simp: m)
  then have u: "AList.update k v acc = acc @ [(k, v)]" by (rule update_fresh)
  from Cons.prems have "distinct (map fst ((acc @ [(k, v)]) @ ms))" by (simp add: m)
  from Cons.IH [OF this] show ?case by (simp add: m u)
qed

lemma make_object_distinct: "distinct (map fst ms) \<Longrightarrow> make_object ms = JObj ms"
  using foldl_update_distinct [of "[]" ms] by (simp add: make_object_def)

lemma show_nat_first: "\<exists>c cs. show_nat n = c # cs \<and> is_digit c"
  using is_digit_hd_show_nat [of n] show_nat_nonempty [of n] by (cases "show_nat n") auto

lemma is_digit_not_special:
  "is_digit c \<Longrightarrow> \<not> is_ws c \<and> c \<noteq> CHR '']'' \<and> c \<noteq> CHR ''}'' \<and> c \<noteq> CHR ''n'' \<and> c \<noteq> CHR ''t''
     \<and> c \<noteq> CHR ''f'' \<and> c \<noteq> DQ \<and> c \<noteq> CHR ''['' \<and> c \<noteq> CHR ''{'' \<and> c \<noteq> CHR ''-''"
  by (auto simp: is_digit_def is_ws_def)

lemma value_first_stringify: "value_first (JSON_stringify j @ r)"
proof (cases j)
  case (JNum i)
  obtain c cs where "show_nat (nat i) = c # cs" "is_digit c" using show_nat_first by blast
  moreover obtain c' cs' where "show_nat (nat (- i)) = c' # cs'" using show_nat_first by blast
  ultimately show ?thesis using is_digit_not_special [of c]
    by (auto simp: JNum value_first_def Number_toString_def is_ws_def)
qed (auto simp: value_first_def is_ws_def QuoteJSONString_def)

lemma value_first_elements: "xs \<noteq> [] \<Longrightarrow> value_first (stringify_elements xs @ r)"
proof (cases xs)
  case Nil
  assume "xs \<noteq> []" with Nil show ?thesis by simp
next
  case (Cons x ys)
  show ?thesis
  proof (cases ys)
    case Nil
    then show ?thesis using value_first_stringify [of x r] by (simp add: Cons)
  next
    case (Cons y zs)
    then show ?thesis
      using value_first_stringify [of x "CHR '','' # stringify_elements (y # zs) @ r"]
      by (simp add: \<open>xs = x # ys\<close>)
  qed
qed

lemma parse_value_null: "parse_value (Suc n) (''null'' @ r) = Some (JNull, r)"
  by (simp add: skip_ws_def is_ws_def expect_def)

lemma parse_value_true: "parse_value (Suc n) (''true'' @ r) = Some (JBool True, r)"
  by (simp add: skip_ws_def is_ws_def expect_def)

lemma parse_value_false: "parse_value (Suc n) (''false'' @ r) = Some (JBool False, r)"
  by (simp add: skip_ws_def is_ws_def expect_def)

lemma parse_value_other:
  "\<not> is_ws c \<Longrightarrow> c \<noteq> CHR ''n'' \<Longrightarrow> c \<noteq> CHR ''t'' \<Longrightarrow> c \<noteq> CHR ''f'' \<Longrightarrow> c \<noteq> DQ \<Longrightarrow>
   c \<noteq> CHR ''['' \<Longrightarrow> c \<noteq> CHR ''{'' \<Longrightarrow> parse_value (Suc n) (c # cs) = parse_number (c # cs)"
  by (simp add: skip_ws_def)

lemma parse_value_digit: "is_digit c \<Longrightarrow> parse_value (Suc n) (c # cs) = parse_number (c # cs)"
  using is_digit_not_special [of c] by (intro parse_value_other) simp_all

lemma parse_value_minus: "parse_value (Suc n) (CHR ''-'' # cs) = parse_number (CHR ''-'' # cs)"
  by (rule parse_value_other) (simp_all add: is_ws_def)

lemma parse_value_number:
  assumes "number_end r"
  shows "parse_value (Suc n) (Number_toString i @ r) = Some (JNum i, r)"
proof -
  have "parse_value (Suc n) (Number_toString i @ r) = parse_number (Number_toString i @ r)"
  proof (cases "i < 0")
    case True
    then show ?thesis by (simp add: Number_toString_def parse_value_minus del: parse_value.simps)
  next
    case False
    obtain c cs where "show_nat (nat i) = c # cs" "is_digit c" using show_nat_first by blast
    with False show ?thesis by (simp add: Number_toString_def parse_value_digit del: parse_value.simps)
  qed
  then show ?thesis using parse_number_Number_toString [OF assms, of i] by simp
qed

lemma parse_value_string: "parse_value (Suc n) (QuoteJSONString s @ r) = Some (JStr s, r)"
  by (simp add: QuoteJSONString_def skip_ws_def is_ws_def parse_chars_escaped)

lemma parse_value_empty_array: "parse_value (Suc n) (''[]'' @ r) = Some (JArr [], r)"
  by (simp add: skip_ws_def is_ws_def)

lemma parse_value_empty_object: "parse_value (Suc n) (''{}'' @ r) = Some (JObj [], r)"
  by (simp add: skip_ws_def is_ws_def)

lemma parse_value_array:
  "value_first s \<Longrightarrow>
   parse_value (Suc n) (CHR ''['' # s) =
     (case parse_elements n s of None \<Rightarrow> None | Some (xs, r1) \<Rightarrow> Some (JArr xs, r1))"
  using skip_ws_value_first [of s] by (simp add: value_first_def) (simp add: skip_ws_def is_ws_def)

lemma parse_value_object:
  "value_first s \<Longrightarrow>
   parse_value (Suc n) (CHR ''{'' # s) =
     (case parse_members n s of None \<Rightarrow> None | Some (ms, r1) \<Rightarrow> Some (make_object ms, r1))"
  using skip_ws_value_first [of s] by (simp add: value_first_def) (simp add: skip_ws_def is_ws_def)

lemma parse_elements_more:
  "parse_value n s = Some (x, CHR '','' # r) \<Longrightarrow>
   parse_elements (Suc n) s =
     (case parse_elements n r of None \<Rightarrow> None | Some (xs, r2) \<Rightarrow> Some (x # xs, r2))"
  by (simp add: skip_ws_def is_ws_def)

lemma parse_elements_last:
  "parse_value n s = Some (x, CHR '']'' # r) \<Longrightarrow> parse_elements (Suc n) s = Some ([x], r)"
  by (simp add: skip_ws_def is_ws_def)

lemma parse_members_more:
  "parse_value n s = Some (v, CHR '','' # r) \<Longrightarrow>
   parse_members (Suc n) (QuoteJSONString k @ CHR '':'' # s) =
     (case parse_members n r of None \<Rightarrow> None | Some (ms, r2) \<Rightarrow> Some ((k, v) # ms, r2))"
  by (simp add: QuoteJSONString_def skip_ws_def is_ws_def parse_chars_escaped)

lemma parse_members_last:
  "parse_value n s = Some (v, CHR ''}'' # r) \<Longrightarrow>
   parse_members (Suc n) (QuoteJSONString k @ CHR '':'' # s) = Some ([(k, v)], r)"
  by (simp add: QuoteJSONString_def skip_ws_def is_ws_def parse_chars_escaped)

lemma number_end_delimiter [simp]:
  "number_end (CHR '','' # s)" "number_end (CHR '']'' # s)" "number_end (CHR ''}'' # s)" "number_end []"
  by (simp_all add: number_end_def is_digit_def)

lemma QuoteJSONString_length: "2 \<le> length (QuoteJSONString k)"
  by (simp add: QuoteJSONString_def)

lemma parse_stringify:
  "wf_json j \<Longrightarrow> number_end r \<Longrightarrow> 2 * length (JSON_stringify j) \<le> n \<Longrightarrow>
     parse_value n (JSON_stringify j @ r) = Some (j, r)"
  "wf_elements xs \<Longrightarrow> xs \<noteq> [] \<Longrightarrow> 2 * length (stringify_elements xs) + 1 \<le> n \<Longrightarrow>
     parse_elements n (stringify_elements xs @ CHR '']'' # r) = Some (xs, r)"
  "wf_members ms \<Longrightarrow> ms \<noteq> [] \<Longrightarrow> 2 * length (stringify_members ms) + 1 \<le> n \<Longrightarrow>
     parse_members n (stringify_members ms @ CHR ''}'' # r) = Some (ms, r)"
proof (induction j and xs and ms arbitrary: n r and n r and n r
    rule: JSON_stringify_stringify_elements_stringify_members.induct)
  case 1
  then obtain n' where "n = Suc n'" by (cases n) auto
  then show ?case using parse_value_null [of n' r] by simp
next
  case (2 b)
  then obtain n' where "n = Suc n'" by (cases n; cases b) auto
  then show ?case using parse_value_true [of n' r] parse_value_false [of n' r] by simp
next
  case (3 i)
  have "Number_toString i \<noteq> []" by (simp add: Number_toString_def show_nat_nonempty)
  with 3 obtain n' where "n = Suc n'" by (cases n) auto
  then show ?case using parse_value_number [OF \<open>number_end r\<close>, of n' i] by simp
next
  case (4 s)
  then obtain n' where "n = Suc n'" using QuoteJSONString_length [of s] by (cases n) auto
  then show ?case using parse_value_string [of n' s r] by simp
next
  case (5 xs)
  then obtain n' where n: "n = Suc n'" by (cases n) auto
  show ?case
  proof (cases "xs = []")
    case True
    then show ?thesis using parse_value_empty_array [of n' r] by (simp add: n)
  next
    case False
    from 5 have wf: "wf_elements xs" by simp
    from 5 n have "2 * length (stringify_elements xs) + 1 \<le> n'" by simp
    from "5.IH" [OF wf False this]
    have "parse_elements n' (stringify_elements xs @ CHR '']'' # r) = Some (xs, r)" .
    then show ?thesis
      using parse_value_array [OF value_first_elements [OF False], of n' "CHR '']'' # r"]
      by (simp add: n del: parse_value.simps)
  qed
next
  case (6 ms)
  then obtain n' where n: "n = Suc n'" by (cases n) auto
  show ?case
  proof (cases "ms = []")
    case True
    then show ?thesis using parse_value_empty_object [of n' r] by (simp add: n)
  next
    case False
    from 6 have wf: "wf_members ms" and d: "distinct (map fst ms)" by simp_all
    from 6 n have "2 * length (stringify_members ms) + 1 \<le> n'" by simp
    from "6.IH" [OF wf False this]
    have p: "parse_members n' (stringify_members ms @ CHR ''}'' # r) = Some (ms, r)" .
    have "value_first (stringify_members ms @ CHR ''}'' # r)"
      using False by (cases ms rule: stringify_members.cases)
        (auto simp: value_first_def QuoteJSONString_def is_ws_def)
    from parse_value_object [OF this, of n'] p show ?thesis
      by (simp add: n make_object_distinct [OF d] del: parse_value.simps)
  qed
next
  case 7
  then show ?case by simp
next
  case (8 x)
  then obtain n' where n: "n = Suc n'" by (cases n) auto
  from 8 n have "wf_json x" "2 * length (JSON_stringify x) \<le> n'" by simp_all
  from "8.IH" [OF this(1) _ this(2), of "CHR '']'' # r"]
  have "parse_value n' (JSON_stringify x @ CHR '']'' # r) = Some (x, CHR '']'' # r)" by simp
  from parse_elements_last [OF this] show ?case by (simp add: n del: parse_elements.simps)
next
  case (9 x y ys)
  then obtain n' where n: "n = Suc n'" by (cases n) auto
  let ?rest = "stringify_elements (y # ys) @ CHR '']'' # r"
  from 9 n have "wf_json x" "2 * length (JSON_stringify x) \<le> n'" by simp_all
  from "9.IH"(1) [OF this(1) _ this(2), of "CHR '','' # ?rest"]
  have v: "parse_value n' (JSON_stringify x @ CHR '','' # ?rest) = Some (x, CHR '','' # ?rest)" by simp
  from 9 n have "wf_elements (y # ys)" "2 * length (stringify_elements (y # ys)) + 1 \<le> n'" by simp_all
  from "9.IH"(2) [OF this(1) _ this(2), of r]
  have "parse_elements n' ?rest = Some (y # ys, r)" by simp
  with parse_elements_more [OF v] show ?case
    by (simp add: n del: parse_elements.simps stringify_elements.simps(3))
       (simp del: parse_elements.simps)
next
  case 10
  then show ?case by simp
next
  case (11 k v)
  then obtain n' where n: "n = Suc n'" by (cases n) auto
  from 11 n have "wf_json v" "2 * length (JSON_stringify v) \<le> n'" by simp_all
  from "11.IH" [OF this(1) _ this(2), of "CHR ''}'' # r"]
  have "parse_value n' (JSON_stringify v @ CHR ''}'' # r) = Some (v, CHR ''}'' # r)" by simp
  from parse_members_last [OF this, of k] show ?case by (simp add: n del: parse_members.simps)
next
  case (12 k v m ms)
  then obtain n' where n: "n = Suc n'" by (cases n) auto
  let ?rest = "stringify_members (m # ms) @ CHR ''}'' # r"
  from 12 n have "wf_json v" "2 * length (JSON_stringify v) \<le> n'" by simp_all
  from "12.IH"(1) [OF this(1) _ this(2), of "CHR '','' # ?rest"]
  have v: "parse_value n' (JSON_stringify v @ CHR '','' # ?rest) = Some (v, CHR '','' # ?rest)" by simp
  from 12 n have "wf_members (m # ms)" "2 * length (stringify_members (m # ms)) + 1 \<le> n'" by simp_all
  from "12.IH"(2) [OF this(1) _ this(2), of r]
  have "parse_members n' ?rest = Some (m # ms, r)" by simp
  with parse_members_more [OF v, of k] show ?case
    by (simp add: n del: parse_members.simps stringify_members.simps(3))
       (simp del: parse_members.simps)
qed

text \<open>Parsing the text of a value gives the value back.\<close>

lemma JSON_parse_stringify: "wf_json j \<Longrightarrow> JSON_parse (JSON_stringify j) = Some j"
  using parse_stringify(1) [of j "[]" "2 * length (JSON_stringify j) + 2"]
  by (simp add: JSON_parse_def skip_ws_def)

section \<open>Properties of the thread store\<close>

lemma JSON_parse_empty_array: "JSON_parse ''[]'' = Some (JArr [])"
  by code_simp

lemma Number_toString_example: "Number_toString 1762128000000 = ''1762128000000''"
  by (simp add: Number_toString_def show_nat.simps digit_char_def)

lemma Storage_getItem_setItem:
  "Storage_setItem k v st = Inr st' \<Longrightarrow> Storage_getItem k st' = Some v"
  by (auto simp: Storage_setItem_def Storage_getItem_def Let_def update_conv' split: if_splits)

lemma startsWith_THREAD_PREFIX: "String_startsWith (THREAD_PREFIX @ s) THREAD_PREFIX"
  by (simp add: String_startsWith_def)

lemma THREAD_PREFIX_nonempty: "THREAD_PREFIX @ s \<noteq> []"
  by (simp add: THREAD_PREFIX_def)

text \<open>
  Claim C6.  A thread id returned by \<open>createNewThreadId\<close> is the fixed prefix followed by
  the current time, and reading that thread in the state the creation left returns the empty
  list (and logs nothing).
\<close>

theorem create_then_read_empty:
  assumes "createNewThreadId b = (Inr threadId, b')"
  shows "getMessagesForThread threadId b' = (Inr (JArr []), b')
         \<and> threadId = THREAD_PREFIX @ Number_toString (now b)"
proof -
  let ?tid = "THREAD_PREFIX @ Number_toString (now b)"
  from assms obtain st where
    set: "Storage_setItem ?tid (JSON_stringify (JArr [])) (localStorage b) = Inr st"
    and tid: "threadId = ?tid" and b': "b' = b\<lparr>localStorage := st\<rparr>"
    by (auto simp: createNewThreadId_def Let_def split: sum.splits)
  from set have "Storage_getItem ?tid st = Some ''[]''"
    using Storage_getItem_setItem by fastforce
  then have "getMessagesForThread ?tid b' = (Inr (JArr []), b')"
    by (simp add: getMessagesForThread_def b' startsWith_THREAD_PREFIX THREAD_PREFIX_nonempty
        JSON_parse_empty_array)
  with tid show ?thesis by simp
qed

theorem create_then_read_empty_witness:
  "createNewThreadId \<lparr>localStorage = \<lparr>entries = [], quota = 100\<rparr>, console = [], now = 1762128000000\<rparr>
     = (Inr ''aeth_chat_thread_1762128000000'',
        \<lparr>localStorage = \<lparr>entries = [(''aeth_chat_thread_1762128000000'', ''[]'')], quota = 100\<rparr>,
         console = [], now = 1762128000000\<rparr>)
   \<and> getMessagesForThread ''aeth_chat_thread_1762128000000''
        \<lparr>localStorage = \<lparr>entries = [(''aeth_chat_thread_1762128000000'', ''[]'')], quota = 100\<rparr>,
         console = [], now = 1762128000000\<rparr>
     = (Inr (JArr []),
        \<lparr>localStorage = \<lparr>entries = [(''aeth_chat_thread_1762128000000'', ''[]'')], quota = 100\<rparr>,
         console = [], now = 1762128000000\<rparr>)"
proof -
  have c: "createNewThreadId \<lparr>localStorage = \<lparr>entries = [], quota = 100\<rparr>, console = [], now = 1762128000000\<rparr>
     = (Inr ''aeth_chat_thread_1762128000000'',
        \<lparr>localStorage = \<lparr>entries = [(''aeth_chat_thread_1762128000000'', ''[]'')], quota = 100\<rparr>,
         console = [], now = 1762128000000\<rparr>)"
    by (simp add: createNewThreadId_def Number_toString_example Storage_setItem_def storage_size_def
        THREAD_PREFIX_def Let_def)
  show ?thesis
    by (intro conjI c conjunct1 [OF create_then_read_empty [OF c]])
qed

text \<open>
  Claim C9.  With a thread id that is empty or lacks the prefix, \<open>saveMessagesToThread\<close>
  changes nothing (storage and console are as before), and \<open>getMessagesForThread\<close> returns
  the empty list whatever the storage holds.
\<close>

theorem invalid_thread_id_ignored:
  assumes "threadId = [] \<or> \<not> String_startsWith threadId THREAD_PREFIX"
  shows "saveMessagesToThread threadId msgs b = (Inr (), b)
         \<and> getMessagesForThread threadId b = (Inr (JArr []), b)"
  using assms by (auto simp: saveMessagesToThread_def getMessagesForThread_def)

theorem invalid_thread_id_ignored_witness:
  "\<not> String_startsWith ''thread_1'' THREAD_PREFIX
   \<and> saveMessagesToThread ''thread_1'' [\<lparr>role = User, agentName = None, content = ''hi'', timestamp = Some 1\<rparr>]
        \<lparr>localStorage = \<lparr>entries = [(''thread_1'', ''[1]'')], quota = 100\<rparr>, console = [], now = 0\<rparr>
      = (Inr (), \<lparr>localStorage = \<lparr>entries = [(''thread_1'', ''[1]'')], quota = 100\<rparr>, console = [], now = 0\<rparr>)
   \<and> getMessagesForThread ''thread_1''
        \<lparr>localStorage = \<lparr>entries = [(''thread_1'', ''[1]'')], quota = 100\<rparr>, console = [], now = 0\<rparr>
      = (Inr (JArr []), \<lparr>localStorage = \<lparr>entries = [(''thread_1'', ''[1]'')], quota = 100\<rparr>, console = [], now = 0\<rparr>)"
proof -
  have h: "\<not> String_startsWith ''thread_1'' THREAD_PREFIX"
    by (simp add: String_startsWith_def THREAD_PREFIX_def)
  then have "''thread_1'' = [] \<or> \<not> String_startsWith ''thread_1'' THREAD_PREFIX" by simp
  from invalid_thread_id_ignored [OF this] h show ?thesis by simp
qed

text \<open>
  Saving and reading never reject: a failure of the storage or of the parser is caught.
\<close>

lemma saveMessagesToThread_never_rejects:
  "fst (saveMessagesToThread threadId msgs b) = Inr ()"
  by (simp add: saveMessagesToThread_def split: sum.splits)

lemma getMessagesForThread_never_rejects:
  "\<exists>v. fst (getMessagesForThread threadId b) = Inr v"
  by (simp add: getMessagesForThread_def split: sum.splits option.splits)

text \<open>
  Claim C2.  \<open>createNewThreadId\<close> calls \<^verbatim>\<open>localStorage.setItem\<close> outside any \<^verbatim>\<open>try\<close>: on a storage
  that is full, the quota error is not caught and not logged, and the promise is rejected.
\<close>

theorem createNewThreadId_rejects_on_full_storage:
  "createNewThreadId \<lparr>localStorage = \<lparr>entries = [], quota = 0\<rparr>, console = [], now = 1762128000000\<rparr>
     = (Inl QuotaExceededError,
        \<lparr>localStorage = \<lparr>entries = [], quota = 0\<rparr>, console = [], now = 1762128000000\<rparr>)"
  by (simp add: createNewThreadId_def Number_toString_example Storage_setItem_def storage_size_def
      THREAD_PREFIX_def Let_def)



lemma Role_string_inj: "Role_string r = Role_string r' \<Longrightarrow> r = r'"
  by (cases r; cases r') (simp_all add: Role_string_def)

text \<open>Two lists of messages with the same value are the same list.\<close>

lemma Message_value_inj: "Message_value m = Message_value m' \<Longrightarrow> m = m'"
  by (cases m; cases m')
     (auto simp: Message_value_def dest: Role_string_inj split: option.splits)

lemma Messages_value_inj: "Messages_value ms = Messages_value ms' \<Longrightarrow> ms = ms'"
proof (induction ms arbitrary: ms')
  case Nil
  then show ?case by (simp add: Messages_value_def)
next
  case (Cons m ms)
  then obtain m' ms'' where ms': "ms' = m' # ms''" by (cases ms') (auto simp: Messages_value_def)
  from Cons.prems have "Message_value m = Message_value m'" "Messages_value ms = Messages_value ms''"
    by (simp_all add: Messages_value_def ms')
  with Cons.IH Message_value_inj show ?case by (simp add: ms')
qed




lemma messages_example_value:
  "Messages_value
     [\<lparr>role = User, agentName = None, content = ''hi'', timestamp = Some 1\<rparr>,
      \<lparr>role = Agent, agentName = Some ''Premier'', content = ''hello'', timestamp = Some 2\<rparr>]
   = JArr [JObj [(''role'', JStr ''user''), (''content'', JStr ''hi''), (''timestamp'', JNum 1)],
            JObj [(''role'', JStr ''agent''), (''agentName'', JStr ''Premier''), (''content'', JStr ''hello''),
                  (''timestamp'', JNum 2)]]"
  by (simp add: Messages_value_def Message_value_def Role_string_def)





lemma heading_eq: "heading m = heading_text (role m) (agentName m)"
  by (simp add: heading_def heading_text_def split: Role.splits option.splits)

lemma Array_join_sections:
  "Array_join (NL # ''---'' @ [NL, NL]) (map (\<lambda>msg. ''### '' @ heading msg @ NL # content msg @ [NL]) (m # ms))
   = ''### '' @ heading m @ NL # content m @
       interleave (frames_after (map (\<lambda>m. (role m, agentName m)) ms)) (map content ms)"
  by (induction ms arbitrary: m) (simp_all add: heading_eq)

lemma length_frames_after: "length (frames_after hs) = length hs + 1"
  by (induction hs) auto

lemma length_export_frames: "length (export_frames threadId hs) = length hs + 1"
  by (cases hs) (auto simp: export_frames_def length_frames_after)

lemma export_is_interleave:
  "formatThreadForExport threadId msgs
     = interleave (export_frames threadId (map (\<lambda>m. (role m, agentName m)) msgs)) (map content msgs)"
proof (cases msgs)
  case Nil
  then show ?thesis by (simp add: formatThreadForExport_def export_frames_def)
next
  case (Cons m ms)
  show ?thesis
    unfolding Cons formatThreadForExport_def Let_def export_frames_def
    by (simp only: Array_join_sections) (simp add: heading_eq)
qed

lemma frames_after_heading:
  "i < length hs \<Longrightarrow>
   suffix (''### '' @ heading_text (fst (hs ! i)) (snd (hs ! i)) @ [NL]) (frames_after hs ! i)"
proof (induction hs arbitrary: i)
  case Nil
  then show ?case by simp
next
  case (Cons h hs)
  obtain r a where h: "h = (r, a)" by (cases h)
  show ?case
  proof (cases i)
    case 0
    have "suffix (''### '' @ heading_text r a @ [NL])
            ((NL # NL # ''---'' @ [NL, NL]) @ (''### '' @ heading_text r a @ [NL]))"
      by (rule suffixI) simp
    then show ?thesis by (simp add: 0 h)
  next
    case (Suc j)
    with Cons show ?thesis by (simp add: h)
  qed
qed

lemma export_frames_heading:
  assumes "i < length hs"
  shows "suffix (''### '' @ heading_text (fst (hs ! i)) (snd (hs ! i)) @ [NL]) (export_frames threadId hs ! i)"
proof (cases hs)
  case Nil
  with assms show ?thesis by simp
next
  case (Cons h hs')
  obtain r a where h: "h = (r, a)" by (cases h)
  show ?thesis
  proof (cases i)
    case 0
    have "suffix (''### '' @ heading_text r a @ [NL])
            ((''# Chat Thread Log: '' @ String_replace threadId THREAD_PREFIX [] @ [NL, NL]) @
             (''### '' @ heading_text r a @ [NL]))"
      by (rule suffixI) simp
    then show ?thesis by (simp add: 0 h Cons export_frames_def)
  next
    case (Suc j)
    with assms Cons have "j < length hs'" by simp
    from frames_after_heading [OF this] show ?thesis by (simp add: Suc h Cons export_frames_def)
  qed
qed

lemma replace_contents:
  "length cs = length msgs \<Longrightarrow>
   map (\<lambda>m. (role m, agentName m)) (map2 (\<lambda>m c. m\<lparr>content := c\<rparr>) msgs cs)
     = map (\<lambda>m. (role m, agentName m)) msgs
   \<and> map content (map2 (\<lambda>m c. m\<lparr>content := c\<rparr>) msgs cs) = cs"
  by (induction cs msgs rule: list_induct2) simp_all

text \<open>
  Claim C7, as the code has it.  The exported text is made of frames and contents: there is
  one more frame than there are messages, the text is the contents of the messages, each
  once and in list order, between these frames; the frames stay the same when the contents
  are replaced by any others; and the frame before the content of a message ends with the
  heading line of that message: \<open>User Input\<close> for a user message, otherwise the agent name,
  or \<open>Agent Response\<close> when the name is missing or empty.
\<close>

theorem export_interleaves_contents:
  "\<exists>frames. length frames = length msgs + 1
     \<and> formatThreadForExport threadId msgs = interleave frames (map content msgs)
     \<and> (\<forall>cs. length cs = length msgs \<longrightarrow>
           formatThreadForExport threadId (map2 (\<lambda>m c. m\<lparr>content := c\<rparr>) msgs cs) = interleave frames cs)
     \<and> (\<forall>i < length msgs.
           suffix (''### '' @
                   (if role (msgs ! i) = User then ''User Input''
                    else (case agentName (msgs ! i) of
                            None \<Rightarrow> ''Agent Response''
                          | Some n \<Rightarrow> if n = [] then ''Agent Response'' else n)) @ [NL])
                  (frames ! i))"
proof -
  let ?hs = "map (\<lambda>m. (role m, agentName m)) msgs"
  let ?frames = "export_frames threadId ?hs"
  have 1: "length ?frames = length msgs + 1" by (simp add: length_export_frames)
  have 2: "formatThreadForExport threadId msgs = interleave ?frames (map content msgs)"
    by (rule export_is_interleave)
  have 3: "formatThreadForExport threadId (map2 (\<lambda>m c. m\<lparr>content := c\<rparr>) msgs cs) = interleave ?frames cs"
    if "length cs = length msgs" for cs
    using export_is_interleave [of threadId "map2 (\<lambda>m c. m\<lparr>content := c\<rparr>) msgs cs"]
      replace_contents [OF that] by simp
  have 4: "suffix (''### '' @
                   (if role (msgs ! i) = User then ''User Input''
                    else (case agentName (msgs ! i) of
                            None \<Rightarrow> ''Agent Response''
                          | Some n \<Rightarrow> if n = [] then ''Agent Response'' else n)) @ [NL])
                  (?frames ! i)"
    if "i < length msgs" for i
  proof -
    from that have "i < length ?hs" by simp
    from export_frames_heading [OF this, of threadId] that show ?thesis
      by (simp add: heading_text_def split: Role.splits)
  qed
  from 1 2 3 4 show ?thesis by blast
qed

theorem export_interleaves_contents_witness:
  "\<exists>frames. length frames = 3
     \<and> formatThreadForExport ''aeth_chat_thread_17''
          [\<lparr>role = User, agentName = None, content = ''hi'', timestamp = Some 1\<rparr>,
           \<lparr>role = Agent, agentName = Some ''Premier'', content = ''hello'', timestamp = Some 2\<rparr>]
         = interleave frames [''hi'', ''hello'']
     \<and> suffix (''### User Input'' @ [NL]) (frames ! 0)
     \<and> suffix (''### Premier'' @ [NL]) (frames ! 1)"
proof -
  let ?msgs = "[\<lparr>role = User, agentName = None, content = ''hi'', timestamp = Some 1\<rparr>,
                \<lparr>role = Agent, agentName = Some ''Premier'', content = ''hello'', timestamp = Some 2\<rparr>]"
  from export_interleaves_contents [of ?msgs "''aeth_chat_thread_17''"]
  obtain frames where l: "length frames = length ?msgs + 1"
    and e: "formatThreadForExport ''aeth_chat_thread_17'' ?msgs = interleave frames (map content ?msgs)"
    and h: "\<forall>i < length ?msgs.
           suffix (''### '' @
                   (if role (?msgs ! i) = User then ''User Input''
                    else (case agentName (?msgs ! i) of
                            None \<Rightarrow> ''Agent Response''
                          | Some n \<Rightarrow> if n = [] then ''Agent Response'' else n)) @ [NL])
                  (frames ! i)"
    by blast
  from h [rule_format, of 0] have "suffix (''### User Input'' @ [NL]) (frames ! 0)"
    by simp
  moreover from h [rule_format, of 1] have "suffix (''### Premier'' @ [NL]) (frames ! 1)"
    by simp
  ultimately show ?thesis using l e by (intro exI [of _ frames]) simp
qed

text \<open>
  Claim C7, as it is written.  A content is not always in the text exactly once: the
  content of a user message that reads \<open>User Input\<close> is there twice, once in its heading.
\<close>

theorem content_can_occur_twice:
  "occurrences ''User Input''
     (formatThreadForExport ''aeth_chat_thread_1''
        [\<lparr>role = User, agentName = None, content = ''User Input'', timestamp = None\<rparr>]) = 2"
  by code_simp


text \<open>The title of a generated thread id is its time stamp.\<close>

lemma String_replace_prefix: "String_replace (p @ s) p [] = s"
proof (cases "p @ s")
  case Nil
  then show ?thesis by simp
next
  case (Cons a l)
  have "prefix p (a # l)" "drop (length p) (a # l) = s"
    using Cons by (metis prefixI, metis append_eq_conv_conj)
  then show ?thesis using Cons by simp
qed

section \<open>Properties of the reflection summarizer\<close>

text \<open>
  Claim C8.  The text that \<open>runIntrospectiveAnalysis\<close> returns is JSON: it parses to an
  array with one object for each pair, in the order of the pairs; \<open>intent\<close> and \<open>reasoning\<close>
  hold the first 50 characters at most of the prompt and of the response, between fixed
  words, and \<open>aslOutput\<close> is the same fixed object everywhere.
\<close>

theorem summary_is_json_of_excerpts:
  "JSON_parse (runIntrospectiveAnalysis thread) =
     Some (JArr (map (\<lambda>e. JObj
        [(''intent'', JStr (''Analyzed: '' @ take 50 (prompt e) @ ''...'')),
         (''reasoning'', JStr (''Response: '' @ take 50 (response e) @ ''...'')),
         (''aslOutput'',
            JObj [(''module'', JStr ''PremierChat''),
                  (''action'', JStr ''reflect''),
                  (''purpose'', JStr ''Introspective synthesis'')])]) thread))"
proof -
  have "wf_elements (map (\<lambda>e. JObj
        [(''intent'', JStr (''Analyzed: '' @ take 50 (prompt e) @ ''...'')),
         (''reasoning'', JStr (''Response: '' @ take 50 (response e) @ ''...'')),
         (''aslOutput'',
            JObj [(''module'', JStr ''PremierChat''),
                  (''action'', JStr ''reflect''),
                  (''purpose'', JStr ''Introspective synthesis'')])]) thread)"
    by (induction thread) simp_all
  then show ?thesis
    unfolding runIntrospectiveAnalysis_def Let_def
    by (intro JSON_parse_stringify) simp
qed

section \<open>Properties of the server endpoints\<close>

text \<open>
  Claim C5.  For every thread id and every state of the server, the audit endpoint answers
  with status 501 and a body that holds an error text, and leaves the server as it was.
\<close>

theorem audit_always_501:
  "\<exists>r msg. GET_audit threadId s = (Inr r, s) \<and> status r = 501
     \<and> body r = JObj [(''error'', JStr msg)] \<and> msg \<noteq> []"
  by (simp add: GET_audit_def)

lemma mkdirs_made: "mkdirs ds ns = Inr ns' \<Longrightarrow> d \<in> set ds \<Longrightarrow> ns' d = Some Directory"
proof (induction ds arbitrary: ns)
  case Nil
  then show ?case by simp
next
  case (Cons x ds)
  show ?case
  proof (cases "d \<in> set ds")
    case True
    with Cons show ?thesis by (auto split: option.splits node.splits)
  next
    case False
    with Cons.prems have dx: "d = x" by simp
    have keep: "mkdirs ds m = Inr ns' \<Longrightarrow> ns' x = m x" for m
      using False dx
    proof (induction ds arbitrary: m)
      case Nil
      then show ?case by simp
    next
      case (Cons y ys)
      then show ?case by (auto split: option.splits node.splits)
    qed
    from Cons.prems(1) show ?thesis
      by (auto simp: dx split: option.splits node.splits dest: keep)
  qed
qed

lemma mkdirs_other: "mkdirs ds ns = Inr ns' \<Longrightarrow> p \<notin> set ds \<Longrightarrow> ns' p = ns p"
  by (induction ds arbitrary: ns) (auto split: option.splits node.splits)

lemma mkdirs_keeps_files: "mkdirs ds ns = Inr ns' \<Longrightarrow> ns p = Some (File c) \<Longrightarrow> ns' p = Some (File c)"
proof (induction ds arbitrary: ns)
  case Nil
  then show ?case by simp
next
  case (Cons d ds)
  then show ?case by (cases "d = p") (auto split: option.splits node.splits)
qed

lemma path_prefixes_length: "x \<in> set (path_prefixes acc r) \<Longrightarrow> length x \<le> length acc + length r"
  by (induction r arbitrary: acc) (fastforce split: if_splits)+

lemma fs_mkdir_ok:
  "fs_mkdir p s = (Inr (), s1) \<Longrightarrow>
   mkdirs (path_prefixes [] p) (nodes s) = Inr (nodes s1) \<and> cwd s1 = cwd s \<and> clock s1 = clock s \<and> free s1 = free s"
  by (auto simp: fs_mkdir_def split: sum.splits)

lemma fs_appendFile_ok:
  "fs_appendFile p data s1 = (Inr (), s2) \<Longrightarrow>
   nodes s2 = (nodes s1)(p \<mapsto> File ((case nodes s1 p of Some (File old) \<Rightarrow> old | _ \<Rightarrow> []) @ data))
   \<and> cwd s2 = cwd s1 \<and> clock s2 = clock s1"
  by (auto simp: fs_appendFile_def split: if_splits)

lemma logPath_date:
  "logPath s = path_join (path_join (cwd s) ''logs/MemoryLogs'') (''log_'' @ utc_date (clock s div ms_per_day) @ ''.json'')"
  by (simp add: logPath_def logsDir_def split_first_toISOString)

lemma length_path_join: "length a < length (path_join a (c # b))"
  by (simp add: path_join_def)

lemma logPath_not_on_the_way: "logPath s \<notin> set (path_prefixes [] (logsDir s))"
proof
  assume "logPath s \<in> set (path_prefixes [] (logsDir s))"
  from path_prefixes_length [OF this] have "length (logPath s) \<le> length (logsDir s)" by simp
  moreover have "length (logsDir s) < length (logPath s)"
    unfolding logPath_def by (simp add: length_path_join)
  ultimately show False by simp
qed

lemma mkdir_keeps_log:
  assumes "fs_mkdir (logsDir s) s = (Inr (), s1)"
  shows "nodes s1 (logPath s) = nodes s (logPath s)"
  using fs_mkdir_ok [OF assms] mkdirs_other [OF _ logPath_not_on_the_way] by simp

lemma POST_memory_log_ok:
  assumes "request_json req = Some logEntry"
    and "POST_memory_log request_json stringify req s = (Inr r, s3)"
  shows "\<exists>s1. fs_mkdir (logsDir s) s = (Inr (), s1)
           \<and> fs_appendFile (logPath s) (stringify logEntry @ [NL]) s1 = (Inr (), s3)"
  using assms by (auto simp: POST_memory_log_def split: prod.splits sum.splits)

lemma mkdirs_succeeds:
  "\<forall>d \<in> set ds. \<forall>c. ns d \<noteq> Some (File c) \<Longrightarrow> \<exists>ns'. mkdirs ds ns = Inr ns'"
proof (induction ds arbitrary: ns)
  case Nil
  then show ?case by simp
next
  case (Cons d ds)
  have a: "\<exists>ns'. mkdirs ds ns = Inr ns'"
    using Cons.prems by (intro Cons.IH) simp
  have b: "\<exists>ns'. mkdirs ds (ns(d \<mapsto> Directory)) = Inr ns'"
    using Cons.prems by (intro Cons.IH) simp
  show ?case
  proof (cases "ns d")
    case None
    with b show ?thesis by simp
  next
    case (Some x)
    with Cons.prems a show ?thesis by (cases x) simp_all
  qed
qed

lemma path_prefixes_last: "acc @ r \<noteq> [] \<Longrightarrow> acc @ r \<in> set (path_prefixes acc r)"
proof (induction r arbitrary: acc)
  case Nil
  then show ?case by simp
next
  case (Cons c r)
  have "(acc @ [c]) @ r \<in> set (path_prefixes (acc @ [c]) r)"
    by (rule Cons.IH) simp
  then show ?case by auto
qed

lemma dirname_path_join:
  assumes "CHR ''/'' \<notin> set name" and "a = [] \<or> last a \<noteq> CHR ''/''"
  shows "dirname (path_join a name) = a"
proof -
  from assms(2) have "path_join a name = a @ CHR ''/'' # name" by (auto simp: path_join_def)
  moreover have "dropWhile (\<lambda>c. c \<noteq> CHR ''/'') (rev name @ CHR ''/'' # rev a) = CHR ''/'' # rev a"
    using assms(1) by (simp add: dropWhile_append)
  ultimately show ?thesis by (simp add: dirname_def)
qed

lemma slash_notin_show_nat: "CHR ''/'' \<notin> set (show_nat n)"
  using set_show_nat [of n] by auto

lemma slash_notin_pad: "CHR ''/'' \<notin> set (pad w n)"
  by (simp add: pad_def slash_notin_show_nat)

lemma slash_notin_utc_date: "CHR ''/'' \<notin> set (utc_date d)"
  by (simp add: utc_date_def year_string_def slash_notin_pad split: prod.splits)

lemma logsDir_no_slash_end: "logsDir s = [] \<or> last (logsDir s) \<noteq> CHR ''/''"
  by (simp add: logsDir_def path_join_def)

lemma dirname_logPath: "dirname (logPath s) = logsDir s"
proof -
  have "CHR ''/'' \<notin> set (''log_'' @ utc_date (clock s div ms_per_day) @ ''.json'')"
    by (simp add: slash_notin_utc_date)
  from dirname_path_join [OF this logsDir_no_slash_end]
  show ?thesis by (simp add: logPath_def split_first_toISOString)
qed

text \<open>
  When no file is in the way of the log directory, the log file is not a directory and the
  line fits the free space, both operations succeed and the request is fulfilled.
\<close>

lemma memory_log_fulfilled:
  assumes "request_json req = Some logEntry"
    and "\<forall>d \<in> set (path_prefixes [] (logsDir s)). \<forall>c. nodes s d \<noteq> Some (File c)"
    and "nodes s (logPath s) \<noteq> Some Directory"
    and "length (stringify logEntry) < free s"
  shows "\<exists>s1 s2. fs_mkdir (logsDir s) s = (Inr (), s1)
           \<and> fs_appendFile (logPath s) (stringify logEntry @ [NL]) s1 = (Inr (), s2)
           \<and> POST_memory_log request_json stringify req s
               = (Inr \<lparr>status = 200, body = JObj [(''status'', JStr ''Logged'')]\<rparr>, s2)"
proof -
  from mkdirs_succeeds [OF assms(2)] obtain ns where ns: "mkdirs (path_prefixes [] (logsDir s)) (nodes s) = Inr ns"
    by blast
  let ?s1 = "s\<lparr>nodes := ns\<rparr>"
  have mk: "fs_mkdir (logsDir s) s = (Inr (), ?s1)" by (simp add: fs_mkdir_def ns)
  have "logsDir s \<noteq> []" by (simp add: logsDir_def path_join_def)
  then have "logsDir s \<in> set (path_prefixes [] (logsDir s))"
    using path_prefixes_last [of "[]" "logsDir s"] by simp
  from mkdirs_made [OF ns this] have dir: "nodes ?s1 (dirname (logPath s)) = Some Directory"
    by (simp add: dirname_logPath)
  have keep: "nodes ?s1 (logPath s) = nodes s (logPath s)"
    using mkdir_keeps_log [OF mk] .
  have "\<exists>s2. fs_appendFile (logPath s) (stringify logEntry @ [NL]) ?s1 = (Inr (), s2)"
    using dir keep assms(3,4) by (simp add: fs_appendFile_def)
  then obtain s2 where ap: "fs_appendFile (logPath s) (stringify logEntry @ [NL]) ?s1 = (Inr (), s2)"
    by blast
  have "POST_memory_log request_json stringify req s
               = (Inr \<lparr>status = 200, body = JObj [(''status'', JStr ''Logged'')]\<rparr>, s2)"
    using assms(1) mk ap by (simp add: POST_memory_log_def NextResponse_json_def)
  with mk ap show ?thesis by blast
qed

text \<open>
  Claim C4, as the code has it.  When the body of the request is JSON, the text that
  \<^verbatim>\<open>JSON.stringify\<close> gives for it holds no newline, and \<^verbatim>\<open>mkdir\<close> and \<^verbatim>\<open>appendFile\<close> succeed, the
  handler answers \<open>{status: Logged}\<close> with status 200 and appends that text and one newline
  to the file \<open>logs/MemoryLogs/log_<date>.json\<close> under the working directory, where the date
  is the UTC calendar date of the server's clock; no other file changes.  A second record
  whose request is fulfilled at any time of the same UTC day is appended to the same file,
  after the first.
\<close>

theorem memory_log_appends_one_line_when_fs_succeeds:
  assumes "request_json req = Some logEntry"
    and "NL \<notin> set (stringify logEntry)"
    and "fs_mkdir (logsDir s) s = (Inr (), s1)"
    and "fs_appendFile (logPath s) (stringify logEntry @ [NL]) s1 = (Inr (), s2)"
  shows "POST_memory_log request_json stringify req s
           = (Inr \<lparr>status = 200, body = JObj [(''status'', JStr ''Logged'')]\<rparr>, s2)
     \<and> logPath s = path_join (path_join (cwd s) ''logs/MemoryLogs'')
                       (''log_'' @ utc_date (clock s div ms_per_day) @ ''.json'')
     \<and> nodes s2 (logPath s)
           = Some (File ((case nodes s (logPath s) of Some (File old) \<Rightarrow> old | _ \<Rightarrow> [])
                         @ stringify logEntry @ [NL]))
     \<and> length (filter (\<lambda>c. c = NL) (stringify logEntry @ [NL])) = 1
     \<and> (\<forall>p c. nodes s p = Some (File c) \<and> p \<noteq> logPath s \<longrightarrow> nodes s2 p = Some (File c))
     \<and> (\<forall>req2 logEntry2 t2 r2 s3.
           request_json req2 = Some logEntry2 \<and> t2 div ms_per_day = clock s div ms_per_day
           \<and> POST_memory_log request_json stringify req2 (s2\<lparr>clock := t2\<rparr>) = (Inr r2, s3) \<longrightarrow>
           nodes s3 (logPath s)
             = Some (File ((case nodes s (logPath s) of Some (File old) \<Rightarrow> old | _ \<Rightarrow> [])
                           @ stringify logEntry @ [NL] @ stringify logEntry2 @ [NL])))"
proof -
  let ?old = "case nodes s (logPath s) of Some (File old) \<Rightarrow> old | _ \<Rightarrow> []"
  let ?line = "stringify logEntry @ [NL]"
  note mk = fs_mkdir_ok [OF assms(3)]
  note ap = fs_appendFile_ok [OF assms(4)]
  have a: "POST_memory_log request_json stringify req s
           = (Inr \<lparr>status = 200, body = JObj [(''status'', JStr ''Logged'')]\<rparr>, s2)"
    using assms by (simp add: POST_memory_log_def NextResponse_json_def)
  have c: "nodes s2 (logPath s) = Some (File (?old @ ?line))"
    using ap mkdir_keeps_log [OF assms(3)] by simp
  have d: "length (filter (\<lambda>c. c = NL) ?line) = 1"
  proof -
    from assms(2) have "filter (\<lambda>c. c = NL) (stringify logEntry) = []"
      by (auto simp: filter_empty_conv)
    then show ?thesis by simp
  qed
  have e: "nodes s2 p = Some (File c)" if "nodes s p = Some (File c)" "p \<noteq> logPath s" for p c
  proof -
    from mk that(1) have "nodes s1 p = Some (File c)" by (auto dest: mkdirs_keeps_files)
    with ap that(2) show ?thesis by simp
  qed
  have f: "nodes s3 (logPath s) = Some (File (?old @ stringify logEntry @ [NL] @ stringify logEntry2 @ [NL]))"
    if p: "request_json req2 = Some logEntry2" and day: "t2 div ms_per_day = clock s div ms_per_day"
      and ok: "POST_memory_log request_json stringify req2 (s2\<lparr>clock := t2\<rparr>) = (Inr r2, s3)"
    for req2 logEntry2 t2 r2 s3
  proof -
    let ?s = "s2\<lparr>clock := t2\<rparr>"
    have same: "logPath ?s = logPath s" "logsDir ?s = logsDir s"
      using mk ap day by (simp_all add: logPath_date logsDir_def)
    from POST_memory_log_ok [OF p ok] obtain s1' where
      mk2: "fs_mkdir (logsDir ?s) ?s = (Inr (), s1')"
      and ap2: "fs_appendFile (logPath ?s) (stringify logEntry2 @ [NL]) s1' = (Inr (), s3)"
      by blast
    from mkdir_keeps_log [OF mk2] c have "nodes s1' (logPath s) = Some (File (?old @ ?line))"
      by (simp add: same)
    with fs_appendFile_ok [OF ap2] show ?thesis by (simp add: same)
  qed
  from a logPath_date [of s] c d e f show ?thesis by blast
qed

text \<open>A record posted on 3 November 2025 (UTC) goes to \<open>log_2025-11-03.json\<close>.\<close>

lemma utc_ymd_example: "utc_ymd 20395 = (2025, 11, 3)"
  by code_simp

lemma utc_date_example: "utc_date (1762128000000 div ms_per_day) = ''2025-11-03''"
proof -
  have "(1762128000000::int) div ms_per_day = 20395" by (simp add: ms_per_day_def)
  then show ?thesis
    by (simp add: utc_date_def utc_ymd_example year_string_def pad_def show_nat.simps digit_char_def)
qed

lemma log_record_example:
  "JSON_parse (JSON_stringify (JObj [(''threadId'', JStr ''aeth_chat_thread_1''), (''agentName'', JStr ''Premier''),
       (''prompt'', JStr ''hi''), (''response'', JStr ''hello''), (''timestamp'', JNum 17)]))
   = Some (JObj [(''threadId'', JStr ''aeth_chat_thread_1''), (''agentName'', JStr ''Premier''),
       (''prompt'', JStr ''hi''), (''response'', JStr ''hello''), (''timestamp'', JNum 17)])"
  by code_simp

lemma log_record_length: "length (JSON_stringify (JObj [(''threadId'', JStr ''aeth_chat_thread_1''), (''agentName'', JStr ''Premier''),
       (''prompt'', JStr ''hi''), (''response'', JStr ''hello''), (''timestamp'', JNum 17)])) = 103"
  by code_simp

lemma logsDir_example:
  "logsDir \<lparr>cwd = ''/app'', nodes = ns, free = k, clock = t\<rparr> = ''/app/logs/MemoryLogs''"
  by (simp add: logsDir_def path_join_def)

lemma logPath_example:
  "logPath \<lparr>cwd = ''/app'', nodes = ns, free = k, clock = 1762128000000\<rparr>
     = ''/app/logs/MemoryLogs/log_2025-11-03.json''"
  by (simp add: logPath_date utc_date_example path_join_def)

lemma mkdir_example:
  "fs_mkdir ''/app/logs/MemoryLogs''
     \<lparr>cwd = ''/app'', nodes = [''/app'' \<mapsto> Directory], free = 1000, clock = 1762128000000\<rparr>
   = (Inr (),
      \<lparr>cwd = ''/app'',
       nodes = [''/app'' \<mapsto> Directory, ''/app/logs'' \<mapsto> Directory, ''/app/logs/MemoryLogs'' \<mapsto> Directory],
       free = 1000, clock = 1762128000000\<rparr>)"
  by (simp add: fs_mkdir_def)

lemma appendFile_example:
  "fs_appendFile ''/app/logs/MemoryLogs/log_2025-11-03.json'' (JSON_stringify (JObj [(''threadId'', JStr ''aeth_chat_thread_1''), (''agentName'', JStr ''Premier''),
       (''prompt'', JStr ''hi''), (''response'', JStr ''hello''), (''timestamp'', JNum 17)]) @ [NL])
     \<lparr>cwd = ''/app'',
       nodes = [''/app'' \<mapsto> Directory, ''/app/logs'' \<mapsto> Directory, ''/app/logs/MemoryLogs'' \<mapsto> Directory],
       free = 1000, clock = 1762128000000\<rparr>
   = (Inr (),
      \<lparr>cwd = ''/app'',
       nodes = [''/app'' \<mapsto> Directory, ''/app/logs'' \<mapsto> Directory, ''/app/logs/MemoryLogs'' \<mapsto> Directory,
                ''/app/logs/MemoryLogs/log_2025-11-03.json'' \<mapsto> File (JSON_stringify (JObj [(''threadId'', JStr ''aeth_chat_thread_1''), (''agentName'', JStr ''Premier''),
       (''prompt'', JStr ''hi''), (''response'', JStr ''hello''), (''timestamp'', JNum 17)]) @ [NL])],
       free = 896, clock = 1762128000000\<rparr>)"
  by (simp add: fs_appendFile_def dirname_def log_record_length del: JSON_stringify.simps)

theorem memory_log_appends_one_line_when_fs_succeeds_witness:
  "POST_memory_log JSON_parse JSON_stringify (JSON_stringify (JObj [(''threadId'', JStr ''aeth_chat_thread_1''), (''agentName'', JStr ''Premier''),
       (''prompt'', JStr ''hi''), (''response'', JStr ''hello''), (''timestamp'', JNum 17)]))
     \<lparr>cwd = ''/app'', nodes = [''/app'' \<mapsto> Directory], free = 1000, clock = 1762128000000\<rparr>
   = (Inr \<lparr>status = 200, body = JObj [(''status'', JStr ''Logged'')]\<rparr>,
      \<lparr>cwd = ''/app'',
       nodes = [''/app'' \<mapsto> Directory, ''/app/logs'' \<mapsto> Directory, ''/app/logs/MemoryLogs'' \<mapsto> Directory,
                ''/app/logs/MemoryLogs/log_2025-11-03.json'' \<mapsto> File (JSON_stringify (JObj [(''threadId'', JStr ''aeth_chat_thread_1''), (''agentName'', JStr ''Premier''),
       (''prompt'', JStr ''hi''), (''response'', JStr ''hello''), (''timestamp'', JNum 17)]) @ [NL])],
       free = 896, clock = 1762128000000\<rparr>)
   \<and> length (filter (\<lambda>c. c = NL) (JSON_stringify (JObj [(''threadId'', JStr ''aeth_chat_thread_1''), (''agentName'', JStr ''Premier''),
       (''prompt'', JStr ''hi''), (''response'', JStr ''hello''), (''timestamp'', JNum 17)]) @ [NL])) = 1"
proof -
  let ?s = "\<lparr>cwd = ''/app'', nodes = [''/app'' \<mapsto> Directory], free = 1000, clock = 1762128000000\<rparr>"
  have mk: "fs_mkdir (logsDir ?s) ?s
   = (Inr (),
      \<lparr>cwd = ''/app'',
       nodes = [''/app'' \<mapsto> Directory, ''/app/logs'' \<mapsto> Directory, ''/app/logs/MemoryLogs'' \<mapsto> Directory],
       free = 1000, clock = 1762128000000\<rparr>)"
    by (simp only: logsDir_example mkdir_example)
  have ap: "fs_appendFile (logPath ?s) (JSON_stringify (JObj [(''threadId'', JStr ''aeth_chat_thread_1''), (''agentName'', JStr ''Premier''),
       (''prompt'', JStr ''hi''), (''response'', JStr ''hello''), (''timestamp'', JNum 17)]) @ [NL])
     \<lparr>cwd = ''/app'',
       nodes = [''/app'' \<mapsto> Directory, ''/app/logs'' \<mapsto> Directory, ''/app/logs/MemoryLogs'' \<mapsto> Directory],
       free = 1000, clock = 1762128000000\<rparr>
   = (Inr (),
      \<lparr>cwd = ''/app'',
       nodes = [''/app'' \<mapsto> Directory, ''/app/logs'' \<mapsto> Directory, ''/app/logs/MemoryLogs'' \<mapsto> Directory,
                ''/app/logs/MemoryLogs/log_2025-11-03.json'' \<mapsto> File (JSON_stringify (JObj [(''threadId'', JStr ''aeth_chat_thread_1''), (''agentName'', JStr ''Premier''),
       (''prompt'', JStr ''hi''), (''response'', JStr ''hello''), (''timestamp'', JNum 17)]) @ [NL])],
       free = 896, clock = 1762128000000\<rparr>)"
    by (simp only: logPath_example appendFile_example)
  from memory_log_appends_one_line_when_fs_succeeds
         [where request_json = JSON_parse and stringify = JSON_stringify,
          OF log_record_example NL_notin_stringify(1) mk ap]
  show ?thesis by blast
qed

text \<open>
  Claim C4, as it is written.  Where a regular file is in the way of the log directory,
  \<^verbatim>\<open>mkdir\<close> fails: the handler is rejected, answers nothing and appends nothing.
\<close>

theorem memory_log_rejected_when_mkdir_fails:
  "JSON_parse (JSON_stringify (JObj [(''threadId'', JStr ''aeth_chat_thread_1''), (''agentName'', JStr ''Premier''),
       (''prompt'', JStr ''hi''), (''response'', JStr ''hello''), (''timestamp'', JNum 17)])) = Some (JObj [(''threadId'', JStr ''aeth_chat_thread_1''), (''agentName'', JStr ''Premier''),
       (''prompt'', JStr ''hi''), (''response'', JStr ''hello''), (''timestamp'', JNum 17)])
   \<and> POST_memory_log JSON_parse JSON_stringify (JSON_stringify (JObj [(''threadId'', JStr ''aeth_chat_thread_1''), (''agentName'', JStr ''Premier''),
       (''prompt'', JStr ''hi''), (''response'', JStr ''hello''), (''timestamp'', JNum 17)]))
     \<lparr>cwd = ''/app'', nodes = [''/app'' \<mapsto> Directory, ''/app/logs'' \<mapsto> File ''notes''],
      free = 1000, clock = 1762128000000\<rparr>
   = (Inl SystemError,
      \<lparr>cwd = ''/app'', nodes = [''/app'' \<mapsto> Directory, ''/app/logs'' \<mapsto> File ''notes''],
       free = 1000, clock = 1762128000000\<rparr>)"
  by (simp add: POST_memory_log_def log_record_example logsDir_example fs_mkdir_def
      del: JSON_stringify.simps)

text \<open>
  Claim C3.  When the body of the request is a JSON object with a prompt and a context
  array (empty or not), the request sent to the hosted API carries the fixed system preamble
  first, then the elements of the context in order, then the prompt as the user message, with
  the fixed model and parameters.
\<close>

theorem chat_messages_preamble_context_prompt:
  assumes "JSON_parse req = Some (JObj fs)"
    and "map_of fs ''prompt'' = Some p"
    and "map_of fs ''context'' = Some (JArr ctx)"
  shows "requests (snd (POST_chat req api)) =
           requests api @
             [\<lparr>model = ''gpt-4o'',
               messages = system_preamble # ctx @ [JObj [(''role'', JStr ''user''), (''content'', p)]],
               temperature = 7 / 10,
               max_tokens = 1000\<rparr>]"
  using assms
  by (simp add: POST_chat_def destructure_def spread_context_def user_message_def Let_def
      split: sum.splits)

lemma chat_body_Premier:
  "JSON_parse (JSON_stringify (JObj [(''prompt'', JStr ''hi''), (''context'', JArr []), (''agentName'', JStr ''Premier'')]))
     = Some (JObj [(''prompt'', JStr ''hi''), (''context'', JArr []), (''agentName'', JStr ''Premier'')])"
  by code_simp

lemma chat_body_Lucius:
  "JSON_parse (JSON_stringify (JObj [(''prompt'', JStr ''hi''), (''context'', JArr []), (''agentName'', JStr ''Lucius'')]))
     = Some (JObj [(''prompt'', JStr ''hi''), (''context'', JArr []), (''agentName'', JStr ''Lucius'')])"
  by code_simp

theorem chat_messages_preamble_context_prompt_witness:
  "requests (snd (POST_chat
       (JSON_stringify (JObj [(''prompt'', JStr ''hi''), (''context'', JArr []), (''agentName'', JStr ''Premier'')]))
       \<lparr>requests = [], respond = (\<lambda>rq. Inl APIError)\<rparr>))
   = [\<lparr>model = ''gpt-4o'',
       messages = [system_preamble, JObj [(''role'', JStr ''user''), (''content'', JStr ''hi'')]],
       temperature = 7 / 10,
       max_tokens = 1000\<rparr>]"
  using chat_messages_preamble_context_prompt [OF chat_body_Premier, of "JStr ''hi''" "[]"
      "\<lparr>requests = [], respond = (\<lambda>rq. Inl APIError)\<rparr>"]
  by simp

text \<open>
  Claim C10.  Two request bodies that are JSON objects with the same prompt and the same
  context get the same treatment, whatever else they hold (an \<open>agentName\<close> in particular): the
  same request goes to the hosted API and the same answer comes back.  Every request sent
  starts with the one system preamble, which names Premier.
\<close>

theorem chat_ignores_agentName:
  assumes "JSON_parse req1 = Some (JObj fs1)" and "JSON_parse req2 = Some (JObj fs2)"
    and "map_of fs1 ''prompt'' = map_of fs2 ''prompt''"
    and "map_of fs1 ''context'' = map_of fs2 ''context''"
  shows "POST_chat req1 api = POST_chat req2 api
         \<and> (\<forall>rq \<in> set (drop (length (requests api)) (requests (snd (POST_chat req1 api)))).
               hd (messages rq) = system_preamble)
         \<and> (\<exists>rest. system_preamble =
               JObj [(''role'', JStr ''system''), (''content'', JStr (''You are Premier'' @ rest))])"
  using assms
  by (auto simp: POST_chat_def destructure_def Let_def system_preamble_def
      split: sum.splits)

theorem chat_ignores_agentName_witness:
  "POST_chat
     (JSON_stringify (JObj [(''prompt'', JStr ''hi''), (''context'', JArr []), (''agentName'', JStr ''Premier'')]))
     \<lparr>requests = [], respond = (\<lambda>rq. Inr [JObj [(''message'', JObj [(''content'', JStr ''hello'')])]])\<rparr>
   = POST_chat
     (JSON_stringify (JObj [(''prompt'', JStr ''hi''), (''context'', JArr []), (''agentName'', JStr ''Lucius'')]))
     \<lparr>requests = [], respond = (\<lambda>rq. Inr [JObj [(''message'', JObj [(''content'', JStr ''hello'')])]])\<rparr>"
  using chat_ignores_agentName [OF chat_body_Premier chat_body_Lucius]
  by simp

end
